theory Spec2Isabelle
  imports Complex_Main "HOL-Library.Char_ord" "HOL-Library.List_Lexorder" "HOL-Library.Sublist"
begin

section \<open>Exceptions\<close>

text \<open>
  The Python exceptions the update code raises, catches or lets through. The handlers of the
  source distinguish three groups: the \<open>OSError\<close> family (\<open>IOError\<close> and
  \<open>PermissionError\<close> are \<open>OSError\<close> in Python 3, and the exceptions of
  \<open>requests\<close> derive from \<open>IOError\<close>), the three \<open>requests\<close> classes named by
  \<open>check_for_updates\<close>, and every other \<open>Exception\<close>.
\<close>

datatype exn =
    OSError string
  | PermissionError string
  | RequestTimeout string
  | RequestConnectionError string
  | RequestException string
  | ValueError string
  | TypeError string
  | KeyError string
  | Exception string

fun is_OSError :: "exn \<Rightarrow> bool" where
  "is_OSError (OSError _) = True"
| "is_OSError (PermissionError _) = True"
| "is_OSError (RequestTimeout _) = True"
| "is_OSError (RequestConnectionError _) = True"
| "is_OSError (RequestException _) = True"
| "is_OSError _ = False"

text \<open>\<open>raise last_exception\<close> with \<open>last_exception = None\<close>.\<close>

definition raise_None :: exn where
  "raise_None = TypeError ''exceptions must derive from BaseException''"


definition sleep :: "real \<Rightarrow> exn + real" where
  "sleep secs =
     (if secs < 0 then Inl (ValueError ''sleep length must be non-negative'')
      else if 2 ^ 63 \<le> secs * 10 ^ 9 then Inl (Exception ''OverflowError: timestamp too large to convert to C _PyTime_t'')
      else Inr secs)"

section \<open>FileGuard: \<open>utilities.py\<close>\<close>

text \<open>
  What \<open>is_file_locked\<close> finds at a path when it looks: nothing, a file it can open
  \<open>r+b\<close>, or a file whose open is denied.
\<close>

datatype fstatus = Absent | Unlocked | Locked

fun is_file_locked :: "fstatus \<Rightarrow> bool" where
  "is_file_locked Absent = False"
| "is_file_locked Unlocked = False"
| "is_file_locked Locked = True"

text \<open>
  \<open>wait_for_file_unlock(file_path, max_attempts, delay)\<close>. The path's status at the
  poll number \<open>attempt\<close> (from 0) is \<open>st attempt\<close>. The result is the returned value or
  the exception, the number of polls made and the sleeps taken, in order.
\<close>

fun wait_from :: "(nat \<Rightarrow> fstatus) \<Rightarrow> real \<Rightarrow> nat \<Rightarrow> nat \<Rightarrow> (exn + bool) \<times> nat \<times> real list" where
  "wait_from st delay attempt 0 = (Inr False, 0, [])"
| "wait_from st delay attempt (Suc r) =
     (if \<not> is_file_locked (st attempt) then (Inr True, 1, [])
      else (case sleep delay of
              Inl e \<Rightarrow> (Inl e, 1, [])
            | Inr s \<Rightarrow> (case wait_from st delay (Suc attempt) r of
                          (res, polls, slept) \<Rightarrow> (res, Suc polls, s # slept))))"

definition wait_for_file_unlock :: "(nat \<Rightarrow> fstatus) \<Rightarrow> int \<Rightarrow> real \<Rightarrow> (exn + bool) \<times> nat \<times> real list" where
  "wait_for_file_unlock st max_attempts delay = wait_from st delay 0 (nat max_attempts)"

text \<open>
  \<open>safe_file_operation(operation, *args, max_attempts, delay, **kwargs)\<close>. The outcome of
  the invocation number \<open>attempt\<close> (from 0) of the operation is \<open>operation attempt\<close>. The
  result is the returned value or the exception, the number of invocations and the sleeps
  taken, in order.
\<close>

fun safe_from :: "(nat \<Rightarrow> exn + 'a) \<Rightarrow> int \<Rightarrow> real \<Rightarrow> nat \<Rightarrow> nat \<Rightarrow> exn option
    \<Rightarrow> (exn + 'a) \<times> nat \<times> real list" where
  "safe_from operation max_attempts delay attempt 0 last_exception =
     (case last_exception of None \<Rightarrow> (Inl raise_None, 0, []) | Some e \<Rightarrow> (Inl e, 0, []))"
| "safe_from operation max_attempts delay attempt (Suc r) last_exception =
     (case operation attempt of
        Inr v \<Rightarrow> (Inr v, 1, [])
      | Inl e \<Rightarrow>
          if is_OSError e then
            (if int attempt < max_attempts - 1 then
               (case sleep delay of
                  Inl e' \<Rightarrow> (Inl e', 1, [])
                | Inr s \<Rightarrow> (case safe_from operation max_attempts delay (Suc attempt) r (Some e) of
                              (res, calls, slept) \<Rightarrow> (res, Suc calls, s # slept)))
             else (case safe_from operation max_attempts delay (Suc attempt) r (Some e) of
                     (res, calls, slept) \<Rightarrow> (res, Suc calls, slept)))
          else (Inl e, 1, []))"

definition safe_file_operation :: "(nat \<Rightarrow> exn + 'a) \<Rightarrow> int \<Rightarrow> real \<Rightarrow> (exn + 'a) \<times> nat \<times> real list" where
  "safe_file_operation operation max_attempts delay =
     safe_from operation max_attempts delay 0 (nat max_attempts) None"

text \<open>
  \<open>Updater._copy_file_with_retry(src_file, dst_file, max_attempts)\<close> of
  \<open>update_installer.py\<close>: the operation is \<open>os.makedirs\<close> of the parent followed by
  \<open>shutil.copy2\<close>; it returns nothing, sleeps two seconds between attempts, re-raises the
  exception of the last attempt and falls off the loop (returning \<open>None\<close>) when
  \<open>max_attempts\<close> is not positive.
\<close>

fun copy_retry_from :: "(nat \<Rightarrow> exn + unit) \<Rightarrow> int \<Rightarrow> nat \<Rightarrow> nat \<Rightarrow> (exn + unit) \<times> nat \<times> real list" where
  "copy_retry_from operation max_attempts attempt 0 = (Inr (), 0, [])"
| "copy_retry_from operation max_attempts attempt (Suc r) =
     (case operation attempt of
        Inr v \<Rightarrow> (Inr (), 1, [])
      | Inl e \<Rightarrow>
          if is_OSError e then
            (if int attempt < max_attempts - 1 then
               (case sleep 2 of
                  Inl e' \<Rightarrow> (Inl e', 1, [])
                | Inr s \<Rightarrow> (case copy_retry_from operation max_attempts (Suc attempt) r of
                              (res, calls, slept) \<Rightarrow> (res, Suc calls, s # slept)))
             else (Inl e, 1, []))
          else (Inl e, 1, []))"

definition copy_file_with_retry :: "(nat \<Rightarrow> exn + unit) \<Rightarrow> int \<Rightarrow> (exn + unit) \<times> nat \<times> real list" where
  "copy_file_with_retry operation max_attempts =
     copy_retry_from operation max_attempts 0 (nat max_attempts)"




definition denied_twice :: "nat \<Rightarrow> exn + nat" where
  "denied_twice i = (if i < 2 then Inl (PermissionError ''denied'') else Inr 7)"


section \<open>Programs with state and exceptions\<close>

text \<open>
  A statement of the source is a function from the state before it to the state after it,
  together with the value it yields or the exception it raises.
\<close>

type_synonym ('s, 'a) prog = "'s \<Rightarrow> (exn + 'a) \<times> 's"

definition unit_p :: "'a \<Rightarrow> ('s, 'a) prog" where
  "unit_p x s = (Inr x, s)"

definition raise :: "exn \<Rightarrow> ('s, 'a) prog" where
  "raise e s = (Inl e, s)"

definition bind_p :: "('s, 'a) prog \<Rightarrow> ('a \<Rightarrow> ('s, 'b) prog) \<Rightarrow> ('s, 'b) prog" where
  "bind_p m f s = (case m s of (Inl e, s') \<Rightarrow> (Inl e, s') | (Inr x, s') \<Rightarrow> f x s')"

definition then_p :: "('s, 'a) prog \<Rightarrow> ('s, 'b) prog \<Rightarrow> ('s, 'b) prog" where
  "then_p m n = bind_p m (\<lambda>_. n)"

definition try_except :: "('s, 'a) prog \<Rightarrow> (exn \<Rightarrow> ('s, 'a) prog) \<Rightarrow> ('s, 'a) prog" where
  "try_except m h s = (case m s of (Inl e, s') \<Rightarrow> h e s' | (Inr x, s') \<Rightarrow> (Inr x, s'))"

fun seq_p :: "('s, unit) prog list \<Rightarrow> ('s, unit) prog" where
  "seq_p [] = unit_p ()"
| "seq_p (m # ms) = then_p m (seq_p ms)"

section \<open>\<open>UpdateChecker.check_for_updates\<close>\<close>

text \<open>\<open>str.strip()\<close>: the code points for which \<open>str.isspace\<close> holds, below 256.\<close>

definition isspace :: "char \<Rightarrow> bool" where
  "isspace c = (let n = (of_char c :: nat) in (9 \<le> n \<and> n \<le> 13) \<or> (28 \<le> n \<and> n \<le> 32) \<or> n = 133 \<or> n = 160)"

definition strip :: "string \<Rightarrow> string" where
  "strip s = rev (dropWhile isspace (rev (dropWhile isspace s)))"

text \<open>
  What the function does to the application besides printing: the hidden Tk root it creates,
  withdraws and destroys when no parent window is given, the yes/no dialog, and the update
  flow it starts. \<open>update_exe\<close> and \<open>update_source\<close> open their window and start
  their worker thread; here only the call is recorded.
\<close>

datatype action = CreateRoot | WithdrawRoot | AskYesNo | StartUpdateExe | StartUpdateSource | DestroyRoot

record check_state =
  printed :: "string list"
  actions :: "action list"

text \<open>
  The collaborators: what \<open>requests.get\<close> with \<open>raise_for_status\<close> and
  \<open>response.text\<close> deliver, \<open>is_frozen()\<close>, and whether each call into Tk or into the
  update flow raises.
\<close>

record check_env =
  fetch :: "exn + string"
  is_frozen :: bool
  tk_root :: "exn option"
  withdraw :: "exn option"
  askyesno :: "exn + bool"
  start_update :: "exn option"
  destroy :: "exn option"

definition print :: "string \<Rightarrow> (check_state, unit) prog" where
  "print line s = (Inr (), s\<lparr>printed := printed s @ [line]\<rparr>)"

definition call :: "exn option \<Rightarrow> action \<Rightarrow> (check_state, unit) prog" where
  "call outcome a s = (case outcome of Some e \<Rightarrow> (Inl e, s) | None \<Rightarrow> (Inr (), s\<lparr>actions := actions s @ [a]\<rparr>))"

definition ask :: "exn + bool \<Rightarrow> (check_state, bool) prog" where
  "ask outcome s = (case outcome of Inl e \<Rightarrow> (Inl e, s) | Inr b \<Rightarrow> (Inr b, s\<lparr>actions := actions s @ [AskYesNo]\<rparr>))"

definition get_text :: "exn + string \<Rightarrow> (check_state, string) prog" where
  "get_text outcome s = (case outcome of Inl e \<Rightarrow> (Inl e, s) | Inr t \<Rightarrow> (Inr t, s))"

text \<open>The body of the \<open>try\<close> statement.\<close>

definition check_body :: "check_env \<Rightarrow> string \<Rightarrow> bool \<Rightarrow> bool \<Rightarrow> (check_state, unit) prog" where
  "check_body env current_version auto_update parent_window =
     then_p (print ''Checking for updates... Current version: {current_version}'')
    (bind_p (get_text (fetch env)) (\<lambda>text.
     let latest_version = strip text in
     then_p (print ''Latest version available: {latest_version}'')
    (if latest_version > current_version then
       seq_p [
         print ''Update available!'',
         (if parent_window then unit_p () else call (tk_root env) CreateRoot),
         (if \<not> parent_window then call (withdraw env) WithdrawRoot else unit_p ()),
         (if auto_update then
            then_p (print ''Auto-update enabled, starting update process...'')
            (if is_frozen env then
               then_p (print ''Running as executable, using executable update method'')
                      (call (start_update env) StartUpdateExe)
             else
               then_p (print ''Running from source, using source update method'')
                      (call (start_update env) StartUpdateSource))
          else
            bind_p (ask (askyesno env)) (\<lambda>result.
              if result then
                then_p (print ''User chose to update.'')
                (if is_frozen env then
                   then_p (print ''Starting executable update...'')
                          (call (start_update env) StartUpdateExe)
                 else
                   then_p (print ''Starting source update...'')
                          (call (start_update env) StartUpdateSource))
              else print ''User chose not to update.'')),
         (if \<not> parent_window then call (destroy env) DestroyRoot else unit_p ())]
     else print ''You are using the latest version of the application.'')))"

text \<open>
  The \<open>except\<close> clauses, in the order of the source: \<open>Timeout\<close>,
  \<open>ConnectionError\<close>, \<open>RequestException\<close>, \<open>Exception\<close>.
\<close>

fun check_handler :: "exn \<Rightarrow> (check_state, unit) prog" where
  "check_handler (RequestTimeout m) =
     print ''Update check timed out - no internet connection or server not responding''"
| "check_handler (RequestConnectionError m) =
     print ''No internet connection available for update check''"
| "check_handler (RequestException m) =
     print ''Network error during update check: {err}''"
| "check_handler e =
     then_p (print ''Unexpected error during update check: {err}'') (print ''traceback'')"

definition check_for_updates :: "check_env \<Rightarrow> string \<Rightarrow> bool \<Rightarrow> bool \<Rightarrow> (check_state, unit) prog" where
  "check_for_updates env current_version auto_update parent_window =
     try_except (check_body env current_version auto_update parent_window) check_handler"

text \<open>Collaborators that all succeed, the marker file holding \<open>text\<close>; a fresh state.\<close>

definition quiet_env :: "string \<Rightarrow> check_env" where
  "quiet_env text = \<lparr>fetch = Inr text, is_frozen = False, tk_root = None, withdraw = None,
     askyesno = Inr True, start_update = None, destroy = None\<rparr>"

definition s0 :: check_state where "s0 = \<lparr>printed = [], actions = []\<rparr>"

text \<open>The branch \<open>latest_version > current_version\<close> was entered; an update flow was started.\<close>

definition update_path_taken :: "(exn + unit) \<times> check_state \<Rightarrow> bool" where
  "update_path_taken r = (''Update available!'' \<in> set (printed (snd r)))"

definition update_started :: "(exn + unit) \<times> check_state \<Rightarrow> bool" where
  "update_started r = (StartUpdateExe \<in> set (actions (snd r)) \<or> StartUpdateSource \<in> set (actions (snd r)))"

text \<open>The lines the handler of an exception prints.\<close>

fun handler_lines :: "exn \<Rightarrow> string list" where
  "handler_lines (RequestTimeout m) =
     [''Update check timed out - no internet connection or server not responding'']"
| "handler_lines (RequestConnectionError m) =
     [''No internet connection available for update check'']"
| "handler_lines (RequestException m) =
     [''Network error during update check: {err}'']"
| "handler_lines e =
     [''Unexpected error during update check: {err}'', ''traceback'']"

text \<open>The version fetch times out.\<close>

definition timeout_env :: check_env where
  "timeout_env = \<lparr>fetch = Inl (RequestTimeout ''read timed out''), is_frozen = False, tk_root = None,
     withdraw = None, askyesno = Inr True, start_update = None, destroy = None\<rparr>"

section \<open>ArchiveLocator\<close>

text \<open>
  A directory tree: a file with its content, or a directory with its entries in listing
  order. A path is the list of its components.
\<close>

datatype node = File string | Dir "(string \<times> node) list"

type_synonym path = "string list"

definition listdir :: "(string \<times> node) list \<Rightarrow> string list" where
  "listdir d = map fst d"

definition isdir :: "(string \<times> node) list \<Rightarrow> string \<Rightarrow> bool" where
  "isdir d name = (case map_of d name of Some (Dir _) \<Rightarrow> True | _ \<Rightarrow> False)"

definition isfile :: "(string \<times> node) list \<Rightarrow> string \<Rightarrow> bool" where
  "isfile d name = (case map_of d name of Some (File _) \<Rightarrow> True | _ \<Rightarrow> False)"

text \<open>\<open>str.lower()\<close> on code points below 256.\<close>

definition lower_char :: "char \<Rightarrow> char" where
  "lower_char c = (let n = (of_char c :: nat) in
     if (65 \<le> n \<and> n \<le> 90) \<or> (192 \<le> n \<and> n \<le> 222 \<and> n \<noteq> 215) then char_of (n + 32) else c)"

definition lower :: "string \<Rightarrow> string" where
  "lower s = map lower_char s"

definition endswith :: "string \<Rightarrow> string \<Rightarrow> bool" where
  "endswith s suf = suffix suf s"

text \<open>\<open>UpdateUtilities.find_exe_files(directory)\<close>.\<close>

definition find_exe_files :: "(string \<times> node) list \<Rightarrow> string list" where
  "find_exe_files d = filter (\<lambda>item. isfile d item \<and> endswith (lower item) ''.exe'') (listdir d)"

text \<open>\<open>UpdateChecker._detect_project_root(directory)\<close>.\<close>

definition UpdateChecker_detect_project_root :: "(string \<times> node) list \<Rightarrow> bool" where
  "UpdateChecker_detect_project_root d =
     (list_all (isdir d) [''assets'', ''docs'', ''ImageMagick'', ''setup'', ''src''] \<and>
      list_all (isfile d) [''latestVersion.txt'', ''LICENSE'', ''README.md''])"

text \<open>\<open>Updater._detect_project_root(directory, exe_mode)\<close>.\<close>

definition Updater_detect_project_root :: "(string \<times> node) list \<Rightarrow> bool \<Rightarrow> bool" where
  "Updater_detect_project_root d exe_mode =
     (if exe_mode then
        list_all (isdir d) [''assets'', ''ImageMagick''] \<and> find_exe_files d \<noteq> []
      else
        list_all (isdir d) [''assets'', ''ImageMagick'', ''src''] \<and>
        list_all (isfile d) [''latestVersion.txt'', ''LICENSE'', ''README.md''])"

text \<open>
  The fallback loop of both locators: the first item, in listing order, that is a directory
  and passes the detection.
\<close>

fun fallback_scan :: "((string \<times> node) list \<Rightarrow> bool) \<Rightarrow> path \<Rightarrow> (string \<times> node) list \<Rightarrow> string list \<Rightarrow> path option" where
  "fallback_scan detect extract_dir d [] = None"
| "fallback_scan detect extract_dir d (item # items) =
     (case map_of d item of
        Some (Dir cs) \<Rightarrow> if detect cs then Some (extract_dir @ [item]) else fallback_scan detect extract_dir d items
      | _ \<Rightarrow> fallback_scan detect extract_dir d items)"

text \<open>\<open>UpdateChecker._find_github_zipball_root(extract_dir)\<close>; \<open>d\<close> is the listing of \<open>extract_dir\<close>.\<close>

definition UpdateChecker_find_github_zipball_root :: "path \<Rightarrow> (string \<times> node) list \<Rightarrow> path option" where
  "UpdateChecker_find_github_zipball_root extract_dir d =
     (let extracted_contents = listdir d;
          single =
            (if length extracted_contents = 1 then
               (case map_of d (extracted_contents ! 0) of
                  Some (Dir cs) \<Rightarrow>
                    if list_all (\<lambda>item. item \<in> set (listdir cs)) [''src'', ''README.md'']
                    then Some (extract_dir @ [extracted_contents ! 0]) else None
                | _ \<Rightarrow> None)
             else None)
      in case single of
           Some potential_root \<Rightarrow> Some potential_root
         | None \<Rightarrow> fallback_scan UpdateChecker_detect_project_root extract_dir d extracted_contents)"

text \<open>\<open>Updater._find_github_zipball_root(extract_dir)\<close>.\<close>

definition Updater_find_github_zipball_root :: "path \<Rightarrow> (string \<times> node) list \<Rightarrow> path option" where
  "Updater_find_github_zipball_root extract_dir d =
     (let extracted_contents = listdir d;
          single =
            (if length extracted_contents = 1 then
               (case map_of d (extracted_contents ! 0) of
                  Some (Dir cs) \<Rightarrow>
                    (let found_indicators =
                       filter (\<lambda>item. item \<in> set (listdir cs)) [''src'', ''README.md'', ''assets'', ''ImageMagick'']
                     in if found_indicators \<noteq> [] then Some (extract_dir @ [extracted_contents ! 0]) else None)
                | _ \<Rightarrow> None)
             else None)
      in case single of
           Some potential_root \<Rightarrow> Some potential_root
         | None \<Rightarrow> fallback_scan (\<lambda>cs. Updater_detect_project_root cs False) extract_dir d extracted_contents)"

text \<open>
  A flat archive: the project lies at the top of the extraction directory. A wrapped
  archive: the same project inside the one directory \<open>xyz-abc123\<close>.
\<close>

definition flat_project :: "(string \<times> node) list" where
  "flat_project =
     [(''assets'', Dir []), (''docs'', Dir []), (''ImageMagick'', Dir []), (''setup'', Dir []),
      (''src'', Dir [(''Main.py'', File ''print()'')]),
      (''latestVersion.txt'', File ''2.0.0''), (''LICENSE'', File ''MIT''), (''README.md'', File ''readme'')]"

definition wrapped_project :: "(string \<times> node) list" where
  "wrapped_project = [(''xyz-abc123'', Dir [(''src'', Dir []), (''README.md'', File ''readme'')])]"

text \<open>An extraction directory whose one entry is a directory that fails both signatures.\<close>

definition lone_directory :: "(string \<times> node) list" where
  "lone_directory = [(''build'', Dir [(''Main.py'', File ''print()'')])]"

text \<open>A top-level entry that the fallback loop accepts.\<close>

definition accepted :: "((string \<times> node) list \<Rightarrow> bool) \<Rightarrow> string \<times> node \<Rightarrow> bool" where
  "accepted detect entry = (case snd entry of Dir cs \<Rightarrow> detect cs | File _ \<Rightarrow> False)"

definition first_accepted :: "((string \<times> node) list \<Rightarrow> bool) \<Rightarrow> path \<Rightarrow> (string \<times> node) list \<Rightarrow> path option" where
  "first_accepted detect extract_dir d =
     (case find (accepted detect) d of None \<Rightarrow> None | Some entry \<Rightarrow> Some (extract_dir @ [fst entry]))"

section \<open>DirectoryMerger\<close>

text \<open>
  The destination side is a file system: a map from paths to what lies there, a file with
  its content or a directory. The root (the empty path) is a directory.
\<close>

datatype entry = FileE string | DirE

type_synonym filesystem = "path \<Rightarrow> entry option"

definition isdir_fs :: "filesystem \<Rightarrow> path \<Rightarrow> bool" where
  "isdir_fs D p = (p = [] \<or> D p = Some DirE)"

text \<open>
  \<open>os.makedirs(p, exist_ok=True)\<close>: every missing component is created; a component
  that is a file makes it raise (\<open>FileExistsError\<close> or \<open>NotADirectoryError\<close>).
\<close>

fun mkdirs :: "path \<Rightarrow> string list \<Rightarrow> filesystem \<Rightarrow> exn + filesystem" where
  "mkdirs q [] D = Inr D"
| "mkdirs q (n # ns) D =
     (case D (q @ [n]) of
        None \<Rightarrow> mkdirs (q @ [n]) ns (D(q @ [n] \<mapsto> DirE))
      | Some DirE \<Rightarrow> mkdirs (q @ [n]) ns D
      | Some (FileE c) \<Rightarrow> Inl (OSError ''FileExistsError''))"

definition makedirs :: "path \<Rightarrow> filesystem \<Rightarrow> exn + filesystem" where
  "makedirs p D = mkdirs [] p D"

text \<open>
  \<open>shutil.copy2(src, dst)\<close> for a source file named \<open>name\<close> with content
  \<open>content\<close>: when \<open>dst\<close> is a directory the file is copied into it under the name of
  the source; the file is then written at the resulting path, which must not be a
  directory and whose parent must be one.
\<close>

definition copy2 :: "filesystem \<Rightarrow> string \<Rightarrow> string \<Rightarrow> path \<Rightarrow> exn + filesystem" where
  "copy2 D content name dst =
     (let dst' = (if isdir_fs D dst then dst @ [name] else dst) in
      if isdir_fs D dst' then Inl (OSError ''IsADirectoryError'')
      else if \<not> isdir_fs D (butlast dst') then Inl (OSError ''FileNotFoundError'')
      else Inr (D(dst' \<mapsto> FileE content)))"

text \<open>
  What the operating system does to the merge from outside: \<open>denied env dst attempt\<close> is
  the exception, if any, with which the copy attempt number \<open>attempt\<close> onto \<open>dst\<close> is
  refused (a lock, a permission), and \<open>lock env dst poll\<close> is what \<open>is_file_locked\<close>
  finds at \<open>dst\<close> at its poll number \<open>poll\<close>.
\<close>

record merge_env =
  denied :: "path \<Rightarrow> nat \<Rightarrow> exn option"
  lock :: "path \<Rightarrow> nat \<Rightarrow> fstatus"

text \<open>
  One attempt of \<open>Updater._copy_file_with_retry\<close>: \<open>os.makedirs\<close> of the parent of
  \<open>dst_file\<close>, then \<open>shutil.copy2\<close>.
\<close>

definition Updater_copy_attempt :: "merge_env \<Rightarrow> filesystem \<Rightarrow> string \<Rightarrow> string \<Rightarrow> path \<Rightarrow> nat \<Rightarrow> exn + filesystem" where
  "Updater_copy_attempt env D content name dst_file attempt =
     (case denied env dst_file attempt of
        Some e \<Rightarrow> Inl e
      | None \<Rightarrow> (case makedirs (butlast dst_file) D of
                  Inl e \<Rightarrow> Inl e
                | Inr D1 \<Rightarrow> copy2 D1 content name dst_file))"

text \<open>
  \<open>self._copy_file_with_retry(src_file, dst_file)\<close> with its default of five attempts:
  the file system after it is the one the last, successful, attempt leaves.
\<close>

definition Updater_copy :: "merge_env \<Rightarrow> filesystem \<Rightarrow> string \<Rightarrow> string \<Rightarrow> path \<Rightarrow> exn + filesystem" where
  "Updater_copy env D content name dst_file =
     (case copy_file_with_retry
             (\<lambda>attempt. case Updater_copy_attempt env D content name dst_file attempt of
                           Inl e \<Rightarrow> Inl e | Inr D' \<Rightarrow> Inr ()) 5 of
        (Inl e, calls, slept) \<Rightarrow> Inl e
      | (Inr u, calls, slept) \<Rightarrow> Updater_copy_attempt env D content name dst_file (calls - 1))"

text \<open>
  The file step of \<open>copy_item\<close> in \<open>UpdateChecker.update_source\<close>: an existing, locked
  destination is waited for (ten polls, one second apart) and the merge fails when it stays
  locked; the copy goes through \<open>safe_file_operation\<close> with three attempts, two seconds
  apart.
\<close>

definition UpdateChecker_copy :: "merge_env \<Rightarrow> filesystem \<Rightarrow> string \<Rightarrow> string \<Rightarrow> path \<Rightarrow> exn + filesystem" where
  "UpdateChecker_copy env D content name dst_file =
     (let proceed =
        fst (safe_file_operation
               (\<lambda>attempt. case denied env dst_file attempt of
                             Some e \<Rightarrow> Inl e
                           | None \<Rightarrow> copy2 D content name dst_file) 3 2)
      in if D dst_file \<noteq> None \<and> is_file_locked (lock env dst_file 0) then
           (case wait_for_file_unlock (\<lambda>poll. lock env dst_file (Suc poll)) 10 1 of
              (Inl e, polls, slept) \<Rightarrow> Inl e
            | (Inr unlocked, polls, slept) \<Rightarrow>
                if unlocked then proceed
                else Inl (Exception ''File {dst_file} is locked and cannot be replaced. Please close any applications using this file.''))
         else proceed)"

text \<open>
  The walk shared by \<open>Updater._merge_directory(src_dir, dst_dir)\<close> and the merging branch
  of \<open>copy_item\<close>: \<open>os.walk\<close> visits a directory before its subdirectories; at each
  directory the mirrored \<open>target_dir\<close> is created, then each file of the directory is
  copied to \<open>target_dir/file\<close>.
\<close>

fun copy_files :: "(filesystem \<Rightarrow> string \<Rightarrow> string \<Rightarrow> path \<Rightarrow> exn + filesystem) \<Rightarrow> path
    \<Rightarrow> (string \<times> node) list \<Rightarrow> filesystem \<Rightarrow> exn + filesystem" where
  "copy_files copy target_dir [] D = Inr D"
| "copy_files copy target_dir ((file, File content) # entries) D =
     (case copy D content file (target_dir @ [file]) of
        Inl e \<Rightarrow> Inl e
      | Inr D' \<Rightarrow> copy_files copy target_dir entries D')"
| "copy_files copy target_dir ((name, Dir cs) # entries) D = copy_files copy target_dir entries D"

fun merge_walk :: "(filesystem \<Rightarrow> string \<Rightarrow> string \<Rightarrow> path \<Rightarrow> exn + filesystem) \<Rightarrow> path
    \<Rightarrow> (string \<times> node) list \<Rightarrow> filesystem \<Rightarrow> exn + filesystem"
and merge_subdirs :: "(filesystem \<Rightarrow> string \<Rightarrow> string \<Rightarrow> path \<Rightarrow> exn + filesystem) \<Rightarrow> path
    \<Rightarrow> (string \<times> node) list \<Rightarrow> filesystem \<Rightarrow> exn + filesystem" where
  "merge_walk copy target_dir entries D =
     (case makedirs target_dir D of
        Inl e \<Rightarrow> Inl e
      | Inr D1 \<Rightarrow> (case copy_files copy target_dir entries D1 of
                    Inl e \<Rightarrow> Inl e
                  | Inr D2 \<Rightarrow> merge_subdirs copy target_dir entries D2))"
| "merge_subdirs copy target_dir [] D = Inr D"
| "merge_subdirs copy target_dir ((name, File content) # entries) D =
     merge_subdirs copy target_dir entries D"
| "merge_subdirs copy target_dir ((name, Dir cs) # entries) D =
     (case merge_walk copy (target_dir @ [name]) cs D of
        Inl e \<Rightarrow> Inl e
      | Inr D' \<Rightarrow> merge_subdirs copy target_dir entries D')"

definition Updater_merge_directory :: "merge_env \<Rightarrow> (string \<times> node) list \<Rightarrow> path \<Rightarrow> filesystem \<Rightarrow> exn + filesystem" where
  "Updater_merge_directory env src_dir dst_dir D = merge_walk (Updater_copy env) dst_dir src_dir D"

definition UpdateChecker_merge_directory :: "merge_env \<Rightarrow> (string \<times> node) list \<Rightarrow> path \<Rightarrow> filesystem \<Rightarrow> exn + filesystem" where
  "UpdateChecker_merge_directory env src_dir dst_dir D = merge_walk (UpdateChecker_copy env) dst_dir src_dir D"

text \<open>
  The node at a relative path of a source tree, and source trees whose directories list
  every name once.
\<close>

fun lookup :: "(string \<times> node) list \<Rightarrow> path \<Rightarrow> node option" where
  "lookup entries [] = Some (Dir entries)"
| "lookup entries (n # p) =
     (case map_of entries n of
        None \<Rightarrow> None
      | Some (File c) \<Rightarrow> (if p = [] then Some (File c) else None)
      | Some (Dir cs) \<Rightarrow> lookup cs p)"

fun wf_entries :: "(string \<times> node) list \<Rightarrow> bool" where
  "wf_entries entries =
     (distinct (map fst entries) \<and>
      (\<forall>x \<in> set entries. case snd x of File c \<Rightarrow> True | Dir cs \<Rightarrow> wf_entries cs))"

text \<open>An operating system that never refuses, a source tree and a destination.\<close>

definition calm :: merge_env where
  "calm = \<lparr>denied = (\<lambda>dst attempt. None), lock = (\<lambda>dst poll. Unlocked)\<rparr>"

definition src_one_file :: "(string \<times> node) list" where
  "src_one_file = [(''a'', File ''new'')]"

definition dst_with_dir :: filesystem where
  "dst_with_dir = [[''dst''] \<mapsto> DirE, [''dst'', ''a''] \<mapsto> DirE, [''dst'', ''a'', ''a''] \<mapsto> FileE ''old'']"

definition dst_with_files :: filesystem where
  "dst_with_files = [[''dst''] \<mapsto> DirE, [''dst'', ''a''] \<mapsto> FileE ''old'', [''dst'', ''b''] \<mapsto> FileE ''kept'']"

text \<open>
  The walk as the sequence of file-system operations it performs, in order: this is how
  the properties of the merge are proved.
\<close>

datatype fsop = Mk path | Cp path string string

fun run_op :: "(filesystem \<Rightarrow> string \<Rightarrow> string \<Rightarrow> path \<Rightarrow> exn + filesystem) \<Rightarrow> fsop \<Rightarrow> filesystem \<Rightarrow> exn + filesystem" where
  "run_op copy (Mk p) D = makedirs p D"
| "run_op copy (Cp dst name content) D = copy D content name dst"

fun run_plan :: "(filesystem \<Rightarrow> string \<Rightarrow> string \<Rightarrow> path \<Rightarrow> exn + filesystem) \<Rightarrow> fsop list \<Rightarrow> filesystem \<Rightarrow> exn + filesystem" where
  "run_plan copy [] D = Inr D"
| "run_plan copy (x # xs) D = (case run_op copy x D of Inl e \<Rightarrow> Inl e | Inr D' \<Rightarrow> run_plan copy xs D')"

fun plan_files :: "path \<Rightarrow> (string \<times> node) list \<Rightarrow> fsop list" where
  "plan_files target_dir [] = []"
| "plan_files target_dir ((file, File content) # entries) =
     Cp (target_dir @ [file]) file content # plan_files target_dir entries"
| "plan_files target_dir ((name, Dir cs) # entries) = plan_files target_dir entries"

fun plan :: "path \<Rightarrow> (string \<times> node) list \<Rightarrow> fsop list"
and plan_subdirs :: "path \<Rightarrow> (string \<times> node) list \<Rightarrow> fsop list" where
  "plan target_dir entries = Mk target_dir # plan_files target_dir entries @ plan_subdirs target_dir entries"
| "plan_subdirs target_dir [] = []"
| "plan_subdirs target_dir ((name, File content) # entries) = plan_subdirs target_dir entries"
| "plan_subdirs target_dir ((name, Dir cs) # entries) =
     plan (target_dir @ [name]) cs @ plan_subdirs target_dir entries"

fun targets :: "fsop list \<Rightarrow> path list" where
  "targets [] = []"
| "targets (Mk p # xs) = targets xs"
| "targets (Cp dst name content # xs) = dst # targets xs"

fun made :: "fsop list \<Rightarrow> path set" where
  "made [] = {}"
| "made (Mk p # xs) = insert p (made xs)"
| "made (Cp dst name content # xs) = insert (butlast dst) (made xs)"

definition closure :: "fsop list \<Rightarrow> path set" where
  "closure xs = {q. \<exists>t \<in> made xs. prefix q t}"

text \<open>
  What the proofs need of a copy procedure: when it succeeds, the file system it leaves is
  the one \<open>shutil.copy2\<close> leaves, possibly after \<open>os.makedirs\<close> of the parent.
\<close>

definition good_copy :: "(filesystem \<Rightarrow> string \<Rightarrow> string \<Rightarrow> path \<Rightarrow> exn + filesystem) \<Rightarrow> bool" where
  "good_copy copy =
     (\<forall>D content name dst D'. copy D content name dst = Inr D' \<longrightarrow>
        copy2 D content name dst = Inr D' \<or>
        (\<exists>D1. makedirs (butlast dst) D = Inr D1 \<and> copy2 D1 content name dst = Inr D'))"

text \<open>What lies at a path once a merge has returned.\<close>

definition entry_after :: "exn + filesystem \<Rightarrow> path \<Rightarrow> exn + entry option" where
  "entry_after r p = (case r of Inl e \<Rightarrow> Inl e | Inr D \<Rightarrow> Inr (D p))"

section \<open>Verified properties\<close>

subsection \<open>The polling loop\<close>






lemma wait_from_polls_le: "wait_from st d a r = (res, polls, slept) \<Longrightarrow> polls \<le> r"
  by (induction r arbitrary: a res polls slept) (auto split: if_splits sum.splits prod.splits)

subsection \<open>The retry wrappers\<close>









section \<open>The claims about FileGuard\<close>








text \<open>
  Claim C9: with \<open>max_attempts \<le> 0\<close> the loop of \<open>safe_file_operation\<close> has no
  iteration: the operation is never invoked, nothing is slept, and \<open>raise last_exception\<close>
  runs with \<open>last_exception = None\<close>, which is a \<open>TypeError\<close> and no file error.
\<close>

theorem safe_file_operation_no_attempts:
  "max_attempts \<le> 0 \<Longrightarrow> safe_file_operation operation max_attempts delay = (Inl raise_None, 0, [])"
  by (simp add: safe_file_operation_def)

theorem safe_file_operation_no_attempts_witness:
  "safe_file_operation denied_twice 0 1 = (Inl (TypeError ''exceptions must derive from BaseException''), 0, [])"
  using safe_file_operation_no_attempts [of 0 denied_twice 1] by (simp add: raise_None_def)

subsection \<open>The update check\<close>

lemmas prog_defs = unit_p_def raise_def bind_p_def then_p_def try_except_def

lemma handler_run: "check_handler e s = (Inr (), s\<lparr>printed := printed s @ handler_lines e\<rparr>)"
  by (cases e) (simp_all add: print_def prog_defs)

lemma handler_lines_props: "handler_lines e \<noteq> [] \<and> ''Update available!'' \<notin> set (handler_lines e)"
  by (cases e) simp_all

lemma handler_prints:
  "\<exists>ls. ls \<noteq> [] \<and> ''Update available!'' \<notin> set ls \<and>
     check_handler e s = (Inr (), s\<lparr>printed := printed s @ ls\<rparr>)"
  using handler_run handler_lines_props by blast

lemma body_taken:
  "fetch env = Inr text \<Longrightarrow> check_body env cur auto pw s0 = (r, s') \<Longrightarrow>
     (''Update available!'' \<in> set (printed s')) = (strip text > cur)"
  unfolding check_body_def
  by (auto simp: prog_defs print_def call_def ask_def get_text_def Let_def s0_def
           split: if_splits sum.splits option.splits prod.splits)

text \<open>
  Claim C8: when the marker file is fetched, \<open>check_for_updates\<close> enters the update
  branch exactly when the remote version string (the fetched text, stripped of surrounding
  whitespace, as the code takes it) is strictly greater than the current version string in
  the lexicographic order of plain strings, whatever the other collaborators do. Remote
  \<open>2.0.0\<close> against current \<open>1.9.0\<close> enters it; remote \<open>1.10.0\<close> does not, the order
  being that of strings and not of version numbers.
\<close>

theorem check_for_updates_string_order:
  "fetch env = Inr text \<Longrightarrow>
     update_path_taken (check_for_updates env current_version auto_update parent_window s0)
       = (strip text > current_version)"
proof -
  assume f: "fetch env = Inr text"
  obtain r s' where b: "check_body env current_version auto_update parent_window s0 = (r, s')"
    by (cases "check_body env current_version auto_update parent_window s0")
  note t = body_taken [OF f b]
  show ?thesis
  proof (cases r)
    case (Inl e)
    from handler_prints [of e s'] obtain ls where
      "''Update available!'' \<notin> set ls" "check_handler e s' = (Inr (), s'\<lparr>printed := printed s' @ ls\<rparr>)"
      by blast
    with b Inl t show ?thesis
      by (simp add: check_for_updates_def try_except_def update_path_taken_def)
  next
    case (Inr u)
    with b t show ?thesis
      by (simp add: check_for_updates_def try_except_def update_path_taken_def)
  qed
qed

theorem check_for_updates_string_order_witness:
  "update_path_taken (check_for_updates (quiet_env ''2.0.0'') ''1.9.0'' True False s0) \<and>
   \<not> update_path_taken (check_for_updates (quiet_env ''1.10.0'') ''1.9.0'' True False s0)"
proof -
  have a: "fetch (quiet_env ''2.0.0'') = Inr ''2.0.0''" and b: "fetch (quiet_env ''1.10.0'') = Inr ''1.10.0''"
    by (simp_all add: quiet_env_def)
  have "strip ''2.0.0'' > ''1.9.0''" "\<not> strip ''1.10.0'' > ''1.9.0''"
    by (simp_all add: strip_def isspace_def)
  with check_for_updates_string_order [OF a, of "''1.9.0''" True False]
       check_for_updates_string_order [OF b, of "''1.9.0''" True False]
  show ?thesis by simp
qed

lemma body_no_update:
  "fetch env = Inr text \<Longrightarrow> \<not> strip text > cur \<Longrightarrow> check_body env cur auto pw s = (r, s') \<Longrightarrow>
     actions s' = actions s \<and> r = Inr ()"
  unfolding check_body_def
  by (auto simp: prog_defs print_def get_text_def Let_def split: prod.splits)

text \<open>
  Claim C10: \<open>check_for_updates\<close> returns normally for every behaviour of its
  collaborators; an exception raised anywhere in its body is caught, a line reporting it
  is printed and nothing is propagated; and when the remote version string is not strictly
  greater than the current one, the update branch is not entered and the actions taken
  (windows, dialogs, update flows) are exactly those before the call.
\<close>

theorem check_for_updates_returns_normally:
  "fst (check_for_updates env current_version auto_update parent_window s) = Inr () \<and>
   (\<forall>e s'. check_body env current_version auto_update parent_window s = (Inl e, s') \<longrightarrow>
      handler_lines e \<noteq> [] \<and>
      check_for_updates env current_version auto_update parent_window s =
        (Inr (), s'\<lparr>printed := printed s' @ handler_lines e\<rparr>)) \<and>
   (\<forall>text. fetch env = Inr text \<and> \<not> strip text > current_version \<longrightarrow>
      actions (snd (check_for_updates env current_version auto_update parent_window s)) = actions s \<and>
      \<not> update_path_taken (check_for_updates env current_version auto_update parent_window s0))"
proof -
  obtain r s' where b: "check_body env current_version auto_update parent_window s = (r, s')"
    by (cases "check_body env current_version auto_update parent_window s")
  have c1: "fst (check_for_updates env current_version auto_update parent_window s) = Inr ()"
    using b handler_run [of _ s'] by (cases r) (simp_all add: check_for_updates_def try_except_def)
  have c2: "\<forall>e s'. check_body env current_version auto_update parent_window s = (Inl e, s') \<longrightarrow>
      handler_lines e \<noteq> [] \<and>
      check_for_updates env current_version auto_update parent_window s =
        (Inr (), s'\<lparr>printed := printed s' @ handler_lines e\<rparr>)"
    using handler_run handler_lines_props by (simp add: check_for_updates_def try_except_def)
  have c3: "\<forall>text. fetch env = Inr text \<and> \<not> strip text > current_version \<longrightarrow>
      actions (snd (check_for_updates env current_version auto_update parent_window s)) = actions s \<and>
      \<not> update_path_taken (check_for_updates env current_version auto_update parent_window s0)"
  proof (intro allI impI)
    fix t
    assume a: "fetch env = Inr t \<and> \<not> strip t > current_version"
    from body_no_update [OF _ _ b, of t] a have "actions s' = actions s" "r = Inr ()" by simp_all
    with b have "actions (snd (check_for_updates env current_version auto_update parent_window s)) = actions s"
      by (simp add: check_for_updates_def try_except_def)
    moreover obtain r0 s0' where b0: "check_body env current_version auto_update parent_window s0 = (r0, s0')"
      by (cases "check_body env current_version auto_update parent_window s0")
    from body_no_update [OF _ _ b0, of t] body_taken [OF _ b0, of t] a b0
    have "\<not> update_path_taken (check_for_updates env current_version auto_update parent_window s0)"
      by (simp add: check_for_updates_def try_except_def update_path_taken_def)
    ultimately show "actions (snd (check_for_updates env current_version auto_update parent_window s)) = actions s \<and>
      \<not> update_path_taken (check_for_updates env current_version auto_update parent_window s0)" by simp
  qed
  from c1 c2 c3 show ?thesis by blast
qed

theorem check_for_updates_returns_normally_witness:
  "check_for_updates timeout_env ''1.9.0'' True False s0 =
     (Inr (), \<lparr>printed = [''Checking for updates... Current version: {current_version}'',
          ''Update check timed out - no internet connection or server not responding''],
        actions = []\<rparr>) \<and>
   actions (snd (check_for_updates (quiet_env ''1.9.0'') ''1.9.0'' True False s0)) = []"
proof -
  have b: "check_body timeout_env ''1.9.0'' True False s0 =
      (Inl (RequestTimeout ''read timed out''),
       \<lparr>printed = [''Checking for updates... Current version: {current_version}''], actions = []\<rparr>)"
    by (simp add: check_body_def timeout_env_def prog_defs print_def get_text_def s0_def)
  have c: "fetch (quiet_env ''1.9.0'') = Inr ''1.9.0'' \<and> \<not> strip ''1.9.0'' > ''1.9.0''"
    by (simp add: quiet_env_def strip_def isspace_def)
  from check_for_updates_returns_normally [of timeout_env "''1.9.0''" True False s0] b
  have "check_for_updates timeout_env ''1.9.0'' True False s0 =
     (Inr (), \<lparr>printed = [''Checking for updates... Current version: {current_version}'',
          ''Update check timed out - no internet connection or server not responding''],
        actions = []\<rparr>)" by simp
  moreover from check_for_updates_returns_normally [of "quiet_env ''1.9.0''" "''1.9.0''" True False s0] c
  have "actions (snd (check_for_updates (quiet_env ''1.9.0'') ''1.9.0'' True False s0)) = []"
    by (simp add: s0_def)
  ultimately show ?thesis by simp
qed

subsection \<open>The archive-root locator\<close>

lemma map_of_listdir: "map_of d name = Some c \<Longrightarrow> name \<in> set (listdir d)"
  unfolding listdir_def by (drule map_of_SomeD) force

lemma isdir_listdir: "isdir d name \<Longrightarrow> name \<in> set (listdir d)"
  unfolding isdir_def by (cases "map_of d name") (simp_all add: map_of_listdir)

lemma isfile_listdir: "isfile d name \<Longrightarrow> name \<in> set (listdir d)"
  unfolding isfile_def by (cases "map_of d name") (simp_all add: map_of_listdir)

lemma fallback_scan_find:
  "distinct (map fst d) \<Longrightarrow> set d' \<subseteq> set d \<Longrightarrow>
     fallback_scan detect extract_dir d (map fst d') = first_accepted detect extract_dir d'"
proof (induction d')
  case Nil
  then show ?case by (simp add: first_accepted_def)
next
  case (Cons entry d')
  obtain n c where entry: "entry = (n, c)" by (cases entry)
  with Cons.prems have "map_of d n = Some c" by simp
  moreover have "fallback_scan detect extract_dir d (map fst d') = first_accepted detect extract_dir d'"
    using Cons by simp
  ultimately show ?case using entry
    by (cases c) (simp_all add: first_accepted_def accepted_def)
qed

lemma checker_many_entries:
  "length d \<noteq> 1 \<Longrightarrow> UpdateChecker_find_github_zipball_root extract_dir d =
     fallback_scan UpdateChecker_detect_project_root extract_dir d (listdir d)"
  by (simp add: UpdateChecker_find_github_zipball_root_def listdir_def)

lemma updater_many_entries:
  "length d \<noteq> 1 \<Longrightarrow> Updater_find_github_zipball_root extract_dir d =
     fallback_scan (\<lambda>cs. Updater_detect_project_root cs False) extract_dir d (listdir d)"
  by (simp add: Updater_find_github_zipball_root_def listdir_def)

lemma flat_project_length: "length flat_project \<noteq> 1"
  by (simp add: flat_project_def)

lemma flat_project_listdir:
  "listdir flat_project = [''assets'', ''docs'', ''ImageMagick'', ''setup'', ''src'',
     ''latestVersion.txt'', ''LICENSE'', ''README.md'']"
  by (simp add: flat_project_def listdir_def)

lemma flat_project_subdirs_rejected:
  "\<not> UpdateChecker_detect_project_root []"
  "\<not> Updater_detect_project_root [] False"
  "\<not> UpdateChecker_detect_project_root [(''Main.py'', File ''print()'')]"
  "\<not> Updater_detect_project_root [(''Main.py'', File ''print()'')] False"
  by (simp_all add: UpdateChecker_detect_project_root_def Updater_detect_project_root_def isdir_def)

lemma flat_project_detected:
  "UpdateChecker_detect_project_root flat_project" "Updater_detect_project_root flat_project False"
  by (simp_all add: UpdateChecker_detect_project_root_def Updater_detect_project_root_def
        flat_project_def isdir_def isfile_def)

lemma checker_not_wrapper:
  assumes "\<not> (\<exists>w cs. d = [(w, Dir cs)] \<and> list_all (\<lambda>item. item \<in> set (listdir cs)) [''src'', ''README.md''])"
  shows "UpdateChecker_find_github_zipball_root extract_dir d =
     fallback_scan UpdateChecker_detect_project_root extract_dir d (listdir d)"
proof (cases "length d = 1")
  case False
  then show ?thesis by (rule checker_many_entries)
next
  case True
  then obtain w c where d: "d = [(w, c)]" by (cases d) auto
  show ?thesis
  proof (cases c)
    case (File t)
    with d show ?thesis by (simp add: UpdateChecker_find_github_zipball_root_def listdir_def)
  next
    case (Dir cs)
    with d assms have "\<not> list_all (\<lambda>item. item \<in> set (listdir cs)) [''src'', ''README.md'']" by simp
    with d Dir show ?thesis by (auto simp: UpdateChecker_find_github_zipball_root_def Let_def listdir_def)
  qed
qed

lemma updater_not_wrapper:
  assumes "\<not> (\<exists>w cs. d = [(w, Dir cs)] \<and>
             (\<exists>item \<in> set [''src'', ''README.md'', ''assets'', ''ImageMagick'']. item \<in> set (listdir cs)))"
  shows "Updater_find_github_zipball_root extract_dir d =
     fallback_scan (\<lambda>cs. Updater_detect_project_root cs False) extract_dir d (listdir d)"
proof (cases "length d = 1")
  case False
  then show ?thesis by (rule updater_many_entries)
next
  case True
  then obtain w c where d: "d = [(w, c)]" by (cases d) auto
  show ?thesis
  proof (cases c)
    case (File t)
    with d show ?thesis by (simp add: Updater_find_github_zipball_root_def listdir_def)
  next
    case (Dir cs)
    with d assms have "\<not> (\<exists>item \<in> set [''src'', ''README.md'', ''assets'', ''ImageMagick'']. item \<in> set (listdir cs))"
      by simp
    then have "filter (\<lambda>item. item \<in> set (listdir cs)) [''src'', ''README.md'', ''assets'', ''ImageMagick''] = []"
      unfolding filter_empty_conv by blast
    with d Dir show ?thesis by (simp add: Updater_find_github_zipball_root_def Let_def listdir_def [of d])
  qed
qed

text \<open>
  Claim C4, as stated, promises that a flat archive is located by the fallback scan. The
  fallback loop only looks inside the top-level directories: the extraction directory
  \<open>flat_project\<close> passes the project detection of both classes itself, and both locators
  return \<open>None\<close> for it.
\<close>

theorem flat_archive_not_located:
  "UpdateChecker_detect_project_root flat_project \<and>
   Updater_detect_project_root flat_project False \<and>
   UpdateChecker_find_github_zipball_root [''tmp''] flat_project = None \<and>
   Updater_find_github_zipball_root [''tmp''] flat_project = None"
proof -
  have "UpdateChecker_find_github_zipball_root [''tmp''] flat_project = None"
    unfolding checker_many_entries [OF flat_project_length] flat_project_listdir
    by (simp add: flat_project_def flat_project_subdirs_rejected)
  moreover have "Updater_find_github_zipball_root [''tmp''] flat_project = None"
    unfolding updater_many_entries [OF flat_project_length] flat_project_listdir
    by (simp add: flat_project_def flat_project_subdirs_rejected)
  ultimately show ?thesis using flat_project_detected by simp
qed

text \<open>
  Claim C4, amended: for every extraction directory that holds exactly one entry, a
  directory whose contents satisfy the signature (\<open>src\<close> and \<open>README.md\<close> among its
  entries for \<open>UpdateChecker\<close>, one of \<open>src\<close>, \<open>README.md\<close>, \<open>assets\<close>,
  \<open>ImageMagick\<close> for \<open>Updater\<close>; the full project detection implies either), the locator
  returns that wrapper directory. For every other extraction directory, be it empty, a
  single file, a single directory that fails the signature, or several entries (the names
  of a listing are distinct), the locator returns the first top-level directory, in listing
  order, whose own contents pass the project detection, and \<open>None\<close> when there is none:
  the top level of the extraction directory itself is never a candidate.
\<close>

theorem locator_wrapper_and_fallback:
  "(list_all (\<lambda>item. item \<in> set (listdir cs)) [''src'', ''README.md''] \<or> UpdateChecker_detect_project_root cs \<longrightarrow>
      UpdateChecker_find_github_zipball_root extract_dir [(w, Dir cs)] = Some (extract_dir @ [w])) \<and>
   ((\<exists>item \<in> set [''src'', ''README.md'', ''assets'', ''ImageMagick'']. item \<in> set (listdir cs)) \<or>
      Updater_detect_project_root cs exe_mode \<longrightarrow>
      Updater_find_github_zipball_root extract_dir [(w, Dir cs)] = Some (extract_dir @ [w])) \<and>
   (distinct (map fst d) \<and>
    \<not> (\<exists>w' cs'. d = [(w', Dir cs')] \<and> list_all (\<lambda>item. item \<in> set (listdir cs')) [''src'', ''README.md'']) \<longrightarrow>
      UpdateChecker_find_github_zipball_root extract_dir d =
        first_accepted UpdateChecker_detect_project_root extract_dir d) \<and>
   (distinct (map fst d) \<and>
    \<not> (\<exists>w' cs'. d = [(w', Dir cs')] \<and>
         (\<exists>item \<in> set [''src'', ''README.md'', ''assets'', ''ImageMagick'']. item \<in> set (listdir cs'))) \<longrightarrow>
      Updater_find_github_zipball_root extract_dir d =
        first_accepted (\<lambda>cs. Updater_detect_project_root cs False) extract_dir d)"
proof (intro conjI impI)
  assume "list_all (\<lambda>item. item \<in> set (listdir cs)) [''src'', ''README.md''] \<or> UpdateChecker_detect_project_root cs"
  then have "list_all (\<lambda>item. item \<in> set (listdir cs)) [''src'', ''README.md'']"
    by (auto simp: UpdateChecker_detect_project_root_def dest: isdir_listdir isfile_listdir)
  then show "UpdateChecker_find_github_zipball_root extract_dir [(w, Dir cs)] = Some (extract_dir @ [w])"
    by (simp add: UpdateChecker_find_github_zipball_root_def listdir_def)
next
  assume "(\<exists>item \<in> set [''src'', ''README.md'', ''assets'', ''ImageMagick'']. item \<in> set (listdir cs)) \<or>
      Updater_detect_project_root cs exe_mode"
  then have "\<exists>item \<in> set [''src'', ''README.md'', ''assets'', ''ImageMagick'']. item \<in> set (listdir cs)"
    by (auto simp: Updater_detect_project_root_def dest: isdir_listdir split: if_splits)
  then have "filter (\<lambda>item. item \<in> set (listdir cs)) [''src'', ''README.md'', ''assets'', ''ImageMagick''] \<noteq> []"
    unfolding filter_empty_conv by blast
  then show "Updater_find_github_zipball_root extract_dir [(w, Dir cs)] = Some (extract_dir @ [w])"
    by (simp add: Updater_find_github_zipball_root_def listdir_def Let_def)
next
  assume a: "distinct (map fst d) \<and>
    \<not> (\<exists>w' cs'. d = [(w', Dir cs')] \<and> list_all (\<lambda>item. item \<in> set (listdir cs')) [''src'', ''README.md''])"
  then have "UpdateChecker_find_github_zipball_root extract_dir d =
     fallback_scan UpdateChecker_detect_project_root extract_dir d (listdir d)"
    by (intro checker_not_wrapper) simp
  also have "\<dots> = first_accepted UpdateChecker_detect_project_root extract_dir d"
    unfolding listdir_def using a by (intro fallback_scan_find) simp_all
  finally show "UpdateChecker_find_github_zipball_root extract_dir d =
        first_accepted UpdateChecker_detect_project_root extract_dir d" .
next
  assume a: "distinct (map fst d) \<and>
    \<not> (\<exists>w' cs'. d = [(w', Dir cs')] \<and>
         (\<exists>item \<in> set [''src'', ''README.md'', ''assets'', ''ImageMagick'']. item \<in> set (listdir cs')))"
  then have "Updater_find_github_zipball_root extract_dir d =
     fallback_scan (\<lambda>cs. Updater_detect_project_root cs False) extract_dir d (listdir d)"
    by (intro updater_not_wrapper) simp
  also have "\<dots> = first_accepted (\<lambda>cs. Updater_detect_project_root cs False) extract_dir d"
    unfolding listdir_def using a by (intro fallback_scan_find) simp_all
  finally show "Updater_find_github_zipball_root extract_dir d =
        first_accepted (\<lambda>cs. Updater_detect_project_root cs False) extract_dir d" .
qed

theorem locator_wrapper_and_fallback_witness:
  "UpdateChecker_find_github_zipball_root [''tmp''] wrapped_project = Some [''tmp'', ''xyz-abc123''] \<and>
   Updater_find_github_zipball_root [''tmp''] wrapped_project = Some [''tmp'', ''xyz-abc123''] \<and>
   UpdateChecker_find_github_zipball_root [''tmp''] flat_project =
     first_accepted UpdateChecker_detect_project_root [''tmp''] flat_project \<and>
   Updater_find_github_zipball_root [''tmp''] flat_project =
     first_accepted (\<lambda>cs. Updater_detect_project_root cs False) [''tmp''] flat_project \<and>
   UpdateChecker_find_github_zipball_root [''tmp''] lone_directory = None \<and>
   Updater_find_github_zipball_root [''tmp''] lone_directory = None"
proof -
  let ?cs = "[(''src'', Dir []), (''README.md'', File ''readme'')]"
  have a: "list_all (\<lambda>item. item \<in> set (listdir ?cs)) [''src'', ''README.md'']"
    by (simp add: listdir_def)
  have b: "\<exists>item \<in> set [''src'', ''README.md'', ''assets'', ''ImageMagick'']. item \<in> set (listdir ?cs)"
    by (simp add: listdir_def)
  have len: "\<And>w' cs'. flat_project \<noteq> [(w', Dir cs')]"
    by (simp add: flat_project_def)
  have c: "distinct (map fst flat_project)"
    by (simp add: flat_project_def)
  have e: "distinct (map fst lone_directory)"
    by (simp add: lone_directory_def)
  have f: "\<not> (\<exists>w' cs'. lone_directory = [(w', Dir cs')] \<and>
              list_all (\<lambda>item. item \<in> set (listdir cs')) [''src'', ''README.md''])"
    by (simp add: lone_directory_def listdir_def)
  have g: "\<not> (\<exists>w' cs'. lone_directory = [(w', Dir cs')] \<and>
              (\<exists>item \<in> set [''src'', ''README.md'', ''assets'', ''ImageMagick'']. item \<in> set (listdir cs')))"
    by (simp add: lone_directory_def listdir_def)
  note inst = locator_wrapper_and_fallback [of ?cs "[''tmp'']" "''xyz-abc123''" False flat_project]
  note lone = locator_wrapper_and_fallback [of ?cs "[''tmp'']" "''xyz-abc123''" False lone_directory]
  from inst a have w1: "UpdateChecker_find_github_zipball_root [''tmp''] [(''xyz-abc123'', Dir ?cs)] =
      Some ([''tmp''] @ [''xyz-abc123''])" by blast
  from inst b have w2: "Updater_find_github_zipball_root [''tmp''] [(''xyz-abc123'', Dir ?cs)] =
      Some ([''tmp''] @ [''xyz-abc123''])" by blast
  from inst c len have w3: "UpdateChecker_find_github_zipball_root [''tmp''] flat_project =
     first_accepted UpdateChecker_detect_project_root [''tmp''] flat_project" by blast
  from inst c len have w4: "Updater_find_github_zipball_root [''tmp''] flat_project =
     first_accepted (\<lambda>cs. Updater_detect_project_root cs False) [''tmp''] flat_project" by blast
  from lone e f have "UpdateChecker_find_github_zipball_root [''tmp''] lone_directory =
     first_accepted UpdateChecker_detect_project_root [''tmp''] lone_directory" by blast
  then have w5: "UpdateChecker_find_github_zipball_root [''tmp''] lone_directory = None"
    by (simp add: first_accepted_def accepted_def lone_directory_def flat_project_subdirs_rejected)
  from lone e g have "Updater_find_github_zipball_root [''tmp''] lone_directory =
     first_accepted (\<lambda>cs. Updater_detect_project_root cs False) [''tmp''] lone_directory" by blast
  then have w6: "Updater_find_github_zipball_root [''tmp''] lone_directory = None"
    by (simp add: first_accepted_def accepted_def lone_directory_def flat_project_subdirs_rejected)
  from w1 w2 have "UpdateChecker_find_github_zipball_root [''tmp''] wrapped_project = Some [''tmp'', ''xyz-abc123'']"
     "Updater_find_github_zipball_root [''tmp''] wrapped_project = Some [''tmp'', ''xyz-abc123'']"
    unfolding wrapped_project_def by simp_all
  with w3 w4 w5 w6 show ?thesis by blast
qed

subsection \<open>The directory merge\<close>

lemma run_plan_append:
  "run_plan copy (xs @ ys) D = (case run_plan copy xs D of Inl e \<Rightarrow> Inl e | Inr D' \<Rightarrow> run_plan copy ys D')"
  by (induction xs arbitrary: D) (auto split: sum.splits)

lemma copy_files_plan: "copy_files copy T es D = run_plan copy (plan_files T es) D"
  by (induction copy T es D rule: copy_files.induct) (auto split: sum.splits)

lemma merge_walk_plan:
  "merge_walk copy T es D = run_plan copy (plan T es) D"
  "merge_subdirs copy T es D = run_plan copy (plan_subdirs T es) D"
proof (induction copy T es D and copy T es D rule: merge_walk_merge_subdirs.induct)
  case (1 copy target_dir entries D)
  show ?case
    using 1 by (auto simp: run_plan_append copy_files_plan split: sum.splits)
next
  case (2 copy target_dir D)
  show ?case by simp
next
  case (3 copy target_dir name content entries D)
  then show ?case by simp
next
  case (4 copy target_dir name cs entries D)
  then show ?case by (auto simp: run_plan_append split: sum.splits)
qed

lemma mkdirs_files_kept:
  "mkdirs q ns D = Inr D' \<Longrightarrow> D x = Some (FileE c) \<Longrightarrow> D' x = Some (FileE c)"
proof (induction q ns D rule: mkdirs.induct)
  case (1 q D)
  then show ?case by simp
next
  case (2 q n ns D)
  show ?case
  proof (cases "D (q @ [n])")
    case None
    with "2.prems" have ne: "x \<noteq> q @ [n]" by auto
    from "2.prems" None have "mkdirs (q @ [n]) ns (D(q @ [n] \<mapsto> DirE)) = Inr D'" by simp
    moreover from ne "2.prems" have "(D(q @ [n] \<mapsto> DirE)) x = Some (FileE c)" by simp
    ultimately show ?thesis using "2.IH"(1) [OF None] by blast
  next
    case (Some a)
    show ?thesis
    proof (cases a)
      case (FileE c')
      with Some "2.prems" show ?thesis by simp
    next
      case DirE
      with Some "2.prems" have "mkdirs (q @ [n]) ns D = Inr D'" by simp
      with "2.IH"(2) [OF Some DirE] "2.prems" show ?thesis by blast
    qed
  qed
qed

lemma mkdirs_new_dirs:
  "mkdirs q ns D = Inr D' \<Longrightarrow> D' x = Some DirE \<Longrightarrow> D x = Some DirE \<or> prefix x (q @ ns)"
proof (induction q ns D rule: mkdirs.induct)
  case (1 q D)
  then show ?case by simp
next
  case (2 q n ns D)
  show ?case
  proof (cases "D (q @ [n])")
    case None
    from "2.prems" None have "mkdirs (q @ [n]) ns (D(q @ [n] \<mapsto> DirE)) = Inr D'" by simp
    with "2.IH"(1) [OF None] "2.prems"
    have "(D(q @ [n] \<mapsto> DirE)) x = Some DirE \<or> prefix x ((q @ [n]) @ ns)" by blast
    then show ?thesis
    proof
      assume a: "(D(q @ [n] \<mapsto> DirE)) x = Some DirE"
      show ?thesis
      proof (cases "x = q @ [n]")
        case True
        then have "prefix x (q @ n # ns)" by (simp add: prefix_def)
        then show ?thesis by simp
      next
        case False
        with a show ?thesis by simp
      qed
    next
      assume "prefix x ((q @ [n]) @ ns)"
      then show ?thesis by simp
    qed
  next
    case (Some a)
    show ?thesis
    proof (cases a)
      case (FileE c')
      with Some "2.prems" show ?thesis by simp
    next
      case DirE
      with Some "2.prems" have "mkdirs (q @ [n]) ns D = Inr D'" by simp
      with "2.IH"(2) [OF Some DirE] "2.prems" show ?thesis by auto
    qed
  qed
qed

lemma makedirs_files_kept:
  "makedirs p D = Inr D' \<Longrightarrow> D x = Some (FileE c) \<Longrightarrow> D' x = Some (FileE c)"
  unfolding makedirs_def by (rule mkdirs_files_kept)

lemma makedirs_new_dirs:
  "makedirs p D = Inr D' \<Longrightarrow> isdir_fs D' x \<Longrightarrow> isdir_fs D x \<or> prefix x p"
  unfolding makedirs_def isdir_fs_def using mkdirs_new_dirs [of "[]" p D D' x] by auto

lemma copy2_plain:
  "copy2 D content name dst = Inr D' \<Longrightarrow> \<not> isdir_fs D dst \<Longrightarrow> D' = D(dst \<mapsto> FileE content)"
  by (auto simp: copy2_def Let_def split: if_splits)


lemma closure_Cons: "closure xs \<subseteq> closure (x # xs)"
  by (cases x) (auto simp: closure_def)

lemma closure_Mk: "prefix q p \<Longrightarrow> q \<in> closure (Mk p # xs)"
  by (auto simp: closure_def)

lemma closure_Cp: "prefix q (butlast dst) \<Longrightarrow> q \<in> closure (Cp dst n c # xs)"
  by (auto simp: closure_def)

lemma copy_step:
  assumes gc: "good_copy copy" and run: "copy D c n dst = Inr D1"
    and nd: "\<not> isdir_fs D dst" and np: "\<not> prefix dst (butlast dst)"
  shows "D1 dst = Some (FileE c)"
    and "\<And>q c'. q \<noteq> dst \<Longrightarrow> D q = Some (FileE c') \<Longrightarrow> D1 q = Some (FileE c')"
    and "\<And>q. isdir_fs D1 q \<Longrightarrow> isdir_fs D q \<or> prefix q (butlast dst)"
proof -
  from gc run have "copy2 D c n dst = Inr D1 \<or>
      (\<exists>D0. makedirs (butlast dst) D = Inr D0 \<and> copy2 D0 c n dst = Inr D1)"
    unfolding good_copy_def by blast
  then obtain D0 where D0: "copy2 D0 c n dst = Inr D1"
    and rel: "D0 = D \<or> makedirs (butlast dst) D = Inr D0" by blast
  have kept0: "\<And>q c'. D q = Some (FileE c') \<Longrightarrow> D0 q = Some (FileE c')"
    using rel makedirs_files_kept by blast
  have dirs0: "\<And>q. isdir_fs D0 q \<Longrightarrow> isdir_fs D q \<or> prefix q (butlast dst)"
    using rel makedirs_new_dirs by blast
  have "\<not> isdir_fs D0 dst" using dirs0 nd np by blast
  with D0 have D1: "D1 = D0(dst \<mapsto> FileE c)" by (rule copy2_plain)
  show "D1 dst = Some (FileE c)" using D1 by simp
  show "\<And>q c'. q \<noteq> dst \<Longrightarrow> D q = Some (FileE c') \<Longrightarrow> D1 q = Some (FileE c')"
    using D1 kept0 by simp
  show "\<And>q. isdir_fs D1 q \<Longrightarrow> isdir_fs D q \<or> prefix q (butlast dst)"
  proof -
    fix q assume "isdir_fs D1 q"
    then have "isdir_fs D0 q" using D1 by (auto simp: isdir_fs_def split: if_splits)
    then show "isdir_fs D q \<or> prefix q (butlast dst)" by (rule dirs0)
  qed
qed

lemma run_plan_effect:
  assumes gc: "good_copy copy"
  shows "run_plan copy xs D = Inr D' \<Longrightarrow> distinct (targets xs) \<Longrightarrow>
     (\<forall>dst \<in> set (targets xs). \<not> isdir_fs D dst \<and> dst \<notin> closure xs) \<Longrightarrow>
     (\<forall>dst n c. Cp dst n c \<in> set xs \<longrightarrow> D' dst = Some (FileE c)) \<and>
     (\<forall>q c. D q = Some (FileE c) \<and> q \<notin> set (targets xs) \<longrightarrow> D' q = Some (FileE c)) \<and>
     (\<forall>q. isdir_fs D' q \<longrightarrow> isdir_fs D q \<or> q \<in> closure xs)"
proof (induction xs arbitrary: D)
  case Nil
  then show ?case by simp
next
  case (Cons x xs)
  from Cons.prems(1) obtain D1 where step: "run_op copy x D = Inr D1" and rest: "run_plan copy xs D1 = Inr D'"
    by (auto split: sum.splits)
  show ?case
  proof (cases x)
    case (Mk p)
    from step Mk have mk: "makedirs p D = Inr D1" by simp
    have kept1: "\<And>q c. D q = Some (FileE c) \<Longrightarrow> D1 q = Some (FileE c)"
      using mk makedirs_files_kept by blast
    have dirs1: "\<And>q. isdir_fs D1 q \<Longrightarrow> isdir_fs D q \<or> q \<in> closure (x # xs)"
      using makedirs_new_dirs [OF mk] closure_Mk Mk by blast
    have t: "targets (x # xs) = targets xs" using Mk by simp
    have d: "distinct (targets xs)" using Cons.prems(2) t by simp
    have pre: "\<forall>dst \<in> set (targets xs). \<not> isdir_fs D1 dst \<and> dst \<notin> closure xs"
    proof
      fix dst assume "dst \<in> set (targets xs)"
      with Cons.prems(3) t have a: "\<not> isdir_fs D dst" "dst \<notin> closure (x # xs)" by auto
      with dirs1 have "\<not> isdir_fs D1 dst" by blast
      moreover from a closure_Cons have "dst \<notin> closure xs" by blast
      ultimately show "\<not> isdir_fs D1 dst \<and> dst \<notin> closure xs" by simp
    qed
    note IH = Cons.IH [OF rest d pre]
    have c1: "\<forall>dst n c. Cp dst n c \<in> set (x # xs) \<longrightarrow> D' dst = Some (FileE c)"
      using IH Mk by simp
    have c2: "\<forall>q c. D q = Some (FileE c) \<and> q \<notin> set (targets (x # xs)) \<longrightarrow> D' q = Some (FileE c)"
      using IH kept1 t by simp
    have c3: "\<forall>q. isdir_fs D' q \<longrightarrow> isdir_fs D q \<or> q \<in> closure (x # xs)"
      using IH dirs1 closure_Cons by blast
    from c1 c2 c3 show ?thesis by blast
  next
    case (Cp dst n c)
    from step Cp have cp: "copy D c n dst = Inr D1" by simp
    have t: "targets (x # xs) = dst # targets xs" using Cp by simp
    from Cons.prems(3) t have nd: "\<not> isdir_fs D dst" and nc: "dst \<notin> closure (x # xs)" by auto
    from nc have np: "\<not> prefix dst (butlast dst)" using closure_Cp Cp by blast
    note cs = copy_step [OF gc cp nd np]
    have dirs1: "\<And>q. isdir_fs D1 q \<Longrightarrow> isdir_fs D q \<or> q \<in> closure (x # xs)"
      using cs(3) closure_Cp Cp by blast
    have d: "distinct (targets xs)" and fresh: "dst \<notin> set (targets xs)"
      using Cons.prems(2) t by simp_all
    have pre: "\<forall>dst' \<in> set (targets xs). \<not> isdir_fs D1 dst' \<and> dst' \<notin> closure xs"
    proof
      fix dst' assume "dst' \<in> set (targets xs)"
      with Cons.prems(3) t have a: "\<not> isdir_fs D dst'" "dst' \<notin> closure (x # xs)" by auto
      with dirs1 have "\<not> isdir_fs D1 dst'" by blast
      moreover from a closure_Cons have "dst' \<notin> closure xs" by blast
      ultimately show "\<not> isdir_fs D1 dst' \<and> dst' \<notin> closure xs" by simp
    qed
    note IH = Cons.IH [OF rest d pre]
    have here: "D' dst = Some (FileE c)" using IH cs(1) fresh by blast
    have c1: "\<forall>dst' n' c'. Cp dst' n' c' \<in> set (x # xs) \<longrightarrow> D' dst' = Some (FileE c')"
      using IH here Cp by auto
    have c2: "\<forall>q c'. D q = Some (FileE c') \<and> q \<notin> set (targets (x # xs)) \<longrightarrow> D' q = Some (FileE c')"
    proof (intro allI impI)
      fix q c' assume a: "D q = Some (FileE c') \<and> q \<notin> set (targets (x # xs))"
      with t have "q \<noteq> dst" "q \<notin> set (targets xs)" by auto
      with a cs(2) have "D1 q = Some (FileE c')" by blast
      with IH \<open>q \<notin> set (targets xs)\<close> show "D' q = Some (FileE c')" by blast
    qed
    have c3: "\<forall>q. isdir_fs D' q \<longrightarrow> isdir_fs D q \<or> q \<in> closure (x # xs)"
      using IH dirs1 closure_Cons by blast
    from c1 c2 c3 show ?thesis by blast
  qed
qed

declare wf_entries.simps [simp del]

lemma wf_distinct: "wf_entries es \<Longrightarrow> distinct (map fst es)"
  by (subst (asm) wf_entries.simps) simp

lemma wf_sub: "wf_entries es \<Longrightarrow> (n, Dir cs) \<in> set es \<Longrightarrow> wf_entries cs"
  by (subst (asm) wf_entries.simps) force

lemma wf_tail: "wf_entries (x # es) \<Longrightarrow> wf_entries es"
  by (subst (asm) wf_entries.simps, subst wf_entries.simps) simp

lemma lookup_file_not_prefix_of_dir:
  "lookup es p = Some (File c) \<Longrightarrow> lookup es (p @ r) = Some (Dir cs) \<Longrightarrow> False"
proof (induction p arbitrary: es)
  case Nil
  then show ?case by simp
next
  case (Cons n p)
  show ?case
  proof (cases "map_of es n")
    case None
    with Cons.prems show ?thesis by simp
  next
    case (Some x)
    show ?thesis
    proof (cases x)
      case (File c0)
      with Some Cons.prems show ?thesis by (auto split: if_splits)
    next
      case (Dir cs')
      with Some Cons.prems have "lookup cs' p = Some (File c)" "lookup cs' (p @ r) = Some (Dir cs)" by simp_all
      then show ?thesis by (rule Cons.IH)
    qed
  qed
qed

lemma targets_append: "targets (xs @ ys) = targets xs @ targets ys"
  by (induction xs rule: targets.induct) simp_all

lemma made_append: "made (xs @ ys) = made xs \<union> made ys"
  by (induction xs rule: made.induct) simp_all

lemma plan_files_targets:
  "dst \<in> set (targets (plan_files T es)) \<Longrightarrow> \<exists>n c. dst = T @ [n] \<and> (n, File c) \<in> set es"
  by (induction T es rule: plan_files.induct) auto

lemma plan_files_has:
  "(n, File c) \<in> set es \<Longrightarrow> Cp (T @ [n]) n c \<in> set (plan_files T es)"
  by (induction T es rule: plan_files.induct) auto

lemma plan_files_distinct:
  "distinct (map fst es) \<Longrightarrow> distinct (targets (plan_files T es))"
proof (induction T es rule: plan_files.induct)
  case (1 T)
  then show ?case by simp
next
  case (2 T fname content entries)
  have "T @ [fname] \<notin> set (targets (plan_files T entries))"
  proof
    assume "T @ [fname] \<in> set (targets (plan_files T entries))"
    then obtain n c where "T @ [fname] = T @ [n]" "(n, File c) \<in> set entries"
      using plan_files_targets by blast
    then have "fname \<in> fst ` set entries" by force
    with "2.prems" show False by simp
  qed
  with 2 show ?case by simp
next
  case (3 T name cs entries)
  then show ?case by simp
qed

lemma plan_files_made: "made (plan_files T es) \<subseteq> {T}"
  by (induction T es rule: plan_files.induct) auto

lemma lookup_single: "distinct (map fst es) \<Longrightarrow> (n, File c) \<in> set es \<Longrightarrow> lookup es [n] = Some (File c)"
  by simp

lemma lookup_head_other:
  "n' \<noteq> n \<Longrightarrow> lookup ((n, x) # es) (n' # p) = lookup es (n' # p)"
  by simp

lemma lookup_Some_name: "lookup es (n # p) = Some y \<Longrightarrow> n \<in> fst ` set es"
  by (auto split: option.splits dest!: map_of_SomeD) force


lemma lookup_tail:
  assumes "distinct (map fst (x # es))" and "lookup es p = Some y" and "p \<noteq> []"
  shows "lookup (x # es) p = Some y"
proof -
  from assms(3) obtain n p' where p: "p = n # p'" by (cases p) auto
  with assms(2) have "n \<in> fst ` set es" using lookup_Some_name by blast
  moreover from assms(1) have "fst x \<notin> fst ` set es" by simp
  ultimately have "n \<noteq> fst x" by blast
  with assms(2) p show ?thesis by (cases x) simp
qed

lemma lookup_head_dir: "lookup ((n, Dir cs) # es) (n # p) = lookup cs p"
  by simp

lemma lookup_nonempty_file: "lookup es p = Some (File c) \<Longrightarrow> p \<noteq> []"
  by auto

lemma plan_targets:
  "wf_entries es \<Longrightarrow> dst \<in> set (targets (plan T es)) \<Longrightarrow>
     \<exists>p c. dst = T @ p \<and> lookup es p = Some (File c)"
  "wf_entries es \<Longrightarrow> dst \<in> set (targets (plan_subdirs T es)) \<Longrightarrow>
     \<exists>p c. dst = T @ p \<and> lookup es p = Some (File c) \<and> 2 \<le> length p"
proof (induction T es and T es rule: plan_plan_subdirs.induct)
  case (1 T es)
  from "1.prems"(2) have "dst \<in> set (targets (plan_files T es)) \<or> dst \<in> set (targets (plan_subdirs T es))"
    by (simp add: targets_append)
  then show ?case
  proof
    assume "dst \<in> set (targets (plan_files T es))"
    then obtain n c where "dst = T @ [n]" "(n, File c) \<in> set es" using plan_files_targets by blast
    moreover from this wf_distinct [OF "1.prems"(1)] have "lookup es [n] = Some (File c)" by simp
    ultimately show ?thesis by blast
  next
    assume "dst \<in> set (targets (plan_subdirs T es))"
    with "1.IH" "1.prems"(1) show ?thesis by blast
  qed
next
  case (2 T)
  then show ?case by simp
next
  case (3 T name content es)
  from "3.prems" have "dst \<in> set (targets (plan_subdirs T es))" by simp
  with "3.IH" wf_tail [OF "3.prems"(1)] obtain p c where
    p: "dst = T @ p" "lookup es p = Some (File c)" "2 \<le> length p" by blast
  then have "p \<noteq> []" by auto
  with lookup_tail [OF wf_distinct [OF "3.prems"(1)] p(2)] p show ?case by blast
next
  case (4 T name cs es)
  have wfcs: "wf_entries cs" using wf_sub [OF "4.prems"(1), of name cs] by simp
  from "4.prems"(2) have "dst \<in> set (targets (plan (T @ [name]) cs)) \<or> dst \<in> set (targets (plan_subdirs T es))"
    by (simp add: targets_append)
  then show ?case
  proof
    assume "dst \<in> set (targets (plan (T @ [name]) cs))"
    with "4.IH"(1) wfcs obtain p c where p: "dst = (T @ [name]) @ p" "lookup cs p = Some (File c)" by blast
    then have "p \<noteq> []" by auto
    then have "2 \<le> length (name # p)" by (cases p) auto
    moreover have "lookup ((name, Dir cs) # es) (name # p) = Some (File c)" using p by simp
    moreover have "dst = T @ (name # p)" using p by simp
    ultimately show ?thesis by blast
  next
    assume "dst \<in> set (targets (plan_subdirs T es))"
    with "4.IH"(2) wf_tail [OF "4.prems"(1)] obtain p c where
      p: "dst = T @ p" "lookup es p = Some (File c)" "2 \<le> length p" by blast
    then have "p \<noteq> []" by auto
    with lookup_tail [OF wf_distinct [OF "4.prems"(1)] p(2)] p show ?thesis by blast
  qed
qed

lemma plan_has:
  "wf_entries es \<Longrightarrow> lookup es p = Some (File c) \<Longrightarrow> \<exists>m. Cp (T @ p) m c \<in> set (plan T es)"
  "wf_entries es \<Longrightarrow> lookup es p = Some (File c) \<Longrightarrow> 2 \<le> length p \<Longrightarrow>
     \<exists>m. Cp (T @ p) m c \<in> set (plan_subdirs T es)"
proof (induction T es and T es arbitrary: p and p rule: plan_plan_subdirs.induct)
  case (1 T es)
  from "1.prems"(2) obtain n p' where p: "p = n # p'" by (cases p) auto
  show ?case
  proof (cases "p' = []")
    case True
    with p "1.prems"(2) have "(n, File c) \<in> set es"
      by (auto split: option.splits node.splits dest: map_of_SomeD)
    then have "Cp (T @ [n]) n c \<in> set (plan_files T es)" by (rule plan_files_has)
    with p True show ?thesis by auto
  next
    case False
    with p have "2 \<le> length p" by (cases p') auto
    with "1.IH" "1.prems" obtain m where "Cp (T @ p) m c \<in> set (plan_subdirs T es)" by blast
    then show ?thesis by auto
  qed
next
  case (2 T)
  then show ?case by (cases p) auto
next
  case (3 T name content es)
  from "3.prems"(3) obtain n p' where p: "p = n # p'" "p' \<noteq> []"
    by (cases p) (auto simp: Suc_le_eq)
  with "3.prems"(2) have "n \<noteq> name" by (auto split: if_splits)
  with p "3.prems"(2) have "lookup es p = Some (File c)" by simp
  with "3.IH" wf_tail [OF "3.prems"(1)] "3.prems"(3) show ?case by simp
next
  case (4 T name cs es)
  from "4.prems"(3) obtain n p' where p: "p = n # p'" "p' \<noteq> []"
    by (cases p) (auto simp: Suc_le_eq)
  show ?case
  proof (cases "n = name")
    case True
    with p "4.prems"(2) have "lookup cs p' = Some (File c)" by simp
    moreover have "wf_entries cs" using wf_sub [OF "4.prems"(1), of name cs] by simp
    ultimately obtain m where "Cp ((T @ [name]) @ p') m c \<in> set (plan (T @ [name]) cs)"
      using "4.IH"(1) by blast
    with p True show ?thesis by auto
  next
    case False
    with p "4.prems"(2) have "lookup es p = Some (File c)" by simp
    with "4.IH"(2) wf_tail [OF "4.prems"(1)] "4.prems"(3) obtain m where
      "Cp (T @ p) m c \<in> set (plan_subdirs T es)" by blast
    then show ?thesis by auto
  qed
qed


lemma plan_distinct:
  "wf_entries es \<Longrightarrow> distinct (targets (plan T es))"
  "wf_entries es \<Longrightarrow> distinct (targets (plan_subdirs T es))"
proof (induction T es and T es rule: plan_plan_subdirs.induct)
  case (1 T es)
  have a: "distinct (targets (plan_files T es))"
    using plan_files_distinct wf_distinct [OF "1.prems"] by blast
  have b: "distinct (targets (plan_subdirs T es))" using "1.IH" "1.prems" by blast
  have c: "set (targets (plan_files T es)) \<inter> set (targets (plan_subdirs T es)) = {}"
  proof (rule ccontr)
    assume "set (targets (plan_files T es)) \<inter> set (targets (plan_subdirs T es)) \<noteq> {}"
    then obtain dst where d1: "dst \<in> set (targets (plan_files T es))"
      and d2: "dst \<in> set (targets (plan_subdirs T es))" by blast
    from d1 obtain n where "dst = T @ [n]" using plan_files_targets by blast
    moreover from plan_targets(2) [OF "1.prems" d2] obtain p where "dst = T @ p" "2 \<le> length p" by blast
    ultimately show False by auto
  qed
  from a b c show ?case by (simp add: targets_append)
next
  case (2 T)
  then show ?case by simp
next
  case (3 T name content es)
  with wf_tail show ?case by auto
next
  case (4 T name cs es)
  have wfcs: "wf_entries cs" using wf_sub [OF "4.prems", of name cs] by simp
  have wfes: "wf_entries es" using wf_tail [OF "4.prems"] .
  have a: "distinct (targets (plan (T @ [name]) cs))" using "4.IH"(1) wfcs by blast
  have b: "distinct (targets (plan_subdirs T es))" using "4.IH"(2) wfes by blast
  have c: "set (targets (plan (T @ [name]) cs)) \<inter> set (targets (plan_subdirs T es)) = {}"
  proof (rule ccontr)
    assume "set (targets (plan (T @ [name]) cs)) \<inter> set (targets (plan_subdirs T es)) \<noteq> {}"
    then obtain dst where d1: "dst \<in> set (targets (plan (T @ [name]) cs))"
      and d2: "dst \<in> set (targets (plan_subdirs T es))" by blast
    from plan_targets(1) [OF wfcs d1] obtain p where p: "dst = (T @ [name]) @ p" by blast
    from plan_targets(2) [OF wfes d2] obtain p2 c2 where
      p2: "dst = T @ p2" "lookup es p2 = Some (File c2)" by blast
    from p p2(1) have "p2 = name # p" by simp
    with p2(2) have "name \<in> fst ` set es" using lookup_Some_name by blast
    moreover from wf_distinct [OF "4.prems"] have "name \<notin> fst ` set es" by simp
    ultimately show False by blast
  qed
  from a b c show ?case
    unfolding plan_subdirs.simps targets_append distinct_append by blast
qed

lemma plan_made:
  "wf_entries es \<Longrightarrow> t \<in> made (plan T es) \<Longrightarrow> \<exists>p cs. t = T @ p \<and> lookup es p = Some (Dir cs)"
  "wf_entries es \<Longrightarrow> t \<in> made (plan_subdirs T es) \<Longrightarrow> \<exists>p cs. t = T @ p \<and> lookup es p = Some (Dir cs)"
proof (induction T es and T es rule: plan_plan_subdirs.induct)
  case (1 T es)
  have root: "T = T @ [] \<and> lookup es [] = Some (Dir es)" by simp
  from "1.prems"(2) have "t = T \<or> t \<in> made (plan_files T es) \<or> t \<in> made (plan_subdirs T es)"
    by (simp add: made_append)
  moreover have "t \<in> made (plan_files T es) \<Longrightarrow> t = T" using plan_files_made by blast
  ultimately have "t = T \<or> t \<in> made (plan_subdirs T es)" by blast
  then show ?case
  proof
    assume "t = T"
    with root show ?thesis by blast
  next
    assume "t \<in> made (plan_subdirs T es)"
    with "1.IH" "1.prems"(1) show ?thesis by blast
  qed
next
  case (2 T)
  then show ?case by simp
next
  case (3 T name content es)
  from "3.prems" have "t \<in> made (plan_subdirs T es)" by simp
  with "3.IH" wf_tail [OF "3.prems"(1)] obtain p cs where
    p: "t = T @ p" "lookup es p = Some (Dir cs)" by blast
  show ?case
  proof (cases "p = []")
    case True
    with p have "t = T @ [] \<and> lookup ((name, File content) # es) [] = Some (Dir ((name, File content) # es))" by simp
    then show ?thesis by blast
  next
    case False
    with lookup_tail [OF wf_distinct [OF "3.prems"(1)] p(2)] p show ?thesis by blast
  qed
next
  case (4 T name cs es)
  have wfcs: "wf_entries cs" using wf_sub [OF "4.prems"(1), of name cs] by simp
  from "4.prems"(2) have "t \<in> made (plan (T @ [name]) cs) \<or> t \<in> made (plan_subdirs T es)"
    by (simp add: made_append)
  then show ?case
  proof
    assume "t \<in> made (plan (T @ [name]) cs)"
    with "4.IH"(1) wfcs obtain p cs' where p: "t = (T @ [name]) @ p" "lookup cs p = Some (Dir cs')" by blast
    then have "t = T @ (name # p) \<and> lookup ((name, Dir cs) # es) (name # p) = Some (Dir cs')" by simp
    then show ?thesis by blast
  next
    assume "t \<in> made (plan_subdirs T es)"
    with "4.IH"(2) wf_tail [OF "4.prems"(1)] obtain p cs' where
      p: "t = T @ p" "lookup es p = Some (Dir cs')" by blast
    show ?thesis
    proof (cases "p = []")
      case True
      with p have "t = T @ [] \<and> lookup ((name, Dir cs) # es) [] = Some (Dir ((name, Dir cs) # es))" by simp
      then show ?thesis by blast
    next
      case False
      with lookup_tail [OF wf_distinct [OF "4.prems"(1)] p(2)] p show ?thesis by blast
    qed
  qed
qed

lemma plan_target_not_in_closure:
  assumes wf: "wf_entries es" and dst: "dst \<in> set (targets (plan T es))"
  shows "dst \<notin> closure (plan T es)"
proof
  assume "dst \<in> closure (plan T es)"
  then obtain t where t: "t \<in> made (plan T es)" "prefix dst t" by (auto simp: closure_def)
  from plan_targets(1) [OF wf dst] obtain p c where p: "dst = T @ p" "lookup es p = Some (File c)" by blast
  from plan_made(1) [OF wf t(1)] obtain q cs where q: "t = T @ q" "lookup es q = Some (Dir cs)" by blast
  from t(2) p(1) q(1) have "prefix p q" by simp
  then obtain r where "q = p @ r" by (auto simp: prefix_def)
  with p(2) q(2) show False using lookup_file_not_prefix_of_dir by blast
qed

lemma merge_walk_effect:
  assumes gc: "good_copy copy" and wf: "wf_entries S"
    and noclash: "\<forall>p c. lookup S p = Some (File c) \<longrightarrow> \<not> isdir_fs D (T @ p)"
    and run: "merge_walk copy T S D = Inr D'"
  shows "(\<forall>p c. lookup S p = Some (File c) \<longrightarrow> D' (T @ p) = Some (FileE c)) \<and>
         (\<forall>q c. D q = Some (FileE c) \<and> (\<forall>p c'. lookup S p = Some (File c') \<longrightarrow> q \<noteq> T @ p) \<longrightarrow>
            D' q = Some (FileE c))"
proof -
  from run have rp: "run_plan copy (plan T S) D = Inr D'" by (simp only: merge_walk_plan)
  have pre: "\<forall>dst \<in> set (targets (plan T S)). \<not> isdir_fs D dst \<and> dst \<notin> closure (plan T S)"
  proof
    fix dst assume d: "dst \<in> set (targets (plan T S))"
    from plan_targets(1) [OF wf d] noclash have "\<not> isdir_fs D dst" by blast
    with plan_target_not_in_closure [OF wf d]
    show "\<not> isdir_fs D dst \<and> dst \<notin> closure (plan T S)" by simp
  qed
  note eff = run_plan_effect [OF gc rp plan_distinct(1) [OF wf] pre]
  have a: "\<forall>p c. lookup S p = Some (File c) \<longrightarrow> D' (T @ p) = Some (FileE c)"
    using eff plan_has(1) [OF wf] by blast
  have b: "\<forall>q c. D q = Some (FileE c) \<and> (\<forall>p c'. lookup S p = Some (File c') \<longrightarrow> q \<noteq> T @ p) \<longrightarrow>
            D' q = Some (FileE c)"
  proof (intro allI impI)
    fix q c assume h: "D q = Some (FileE c) \<and> (\<forall>p c'. lookup S p = Some (File c') \<longrightarrow> q \<noteq> T @ p)"
    then have "q \<notin> set (targets (plan T S))" using plan_targets(1) [OF wf] by blast
    with h eff show "D' q = Some (FileE c)" by blast
  qed
  from a b show ?thesis by blast
qed

lemma copy_retry_success:
  "copy_retry_from operation m a r = (Inr u, calls, slept) \<Longrightarrow> 0 < r \<Longrightarrow> a + r = nat m \<Longrightarrow>
     0 < calls \<and> operation (a + calls - 1) = Inr ()"
proof (induction r arbitrary: a calls slept)
  case 0
  then show ?case by simp
next
  case (Suc r)
  show ?case
  proof (cases "operation a")
    case (Inr v)
    with Suc.prems show ?thesis by simp
  next
    case (Inl e)
    show ?thesis
    proof (cases r)
      case 0
      with Suc.prems(3) have "\<not> int a < m - 1" by linarith
      with Inl Suc.prems(1) 0 show ?thesis by (simp split: if_splits)
    next
      case (Suc r')
      from Inl Suc.prems(1) obtain calls' slept' where
        rec: "copy_retry_from operation m (Suc a) r = (Inr u, calls', slept')" and c: "calls = Suc calls'"
        by (auto simp: sleep_def split: if_splits prod.splits)
      have "0 < r" using Suc by simp
      moreover have "Suc a + r = nat m" using Suc.prems(3) by simp
      ultimately have "0 < calls' \<and> operation (Suc a + calls' - 1) = Inr ()"
        using Suc.IH [OF rec] by blast
      with c show ?thesis by (cases calls') auto
    qed
  qed
qed

lemma safe_from_success:
  "safe_from operation m d a r lastx = (Inr v, calls, slept) \<Longrightarrow> \<exists>k. operation k = Inr v"
proof (induction r arbitrary: a lastx calls slept)
  case 0
  then show ?case by (simp split: option.splits)
next
  case (Suc r)
  show ?case
  proof (cases "operation a")
    case (Inr w)
    with Suc.prems have "w = v" by simp
    with Inr show ?thesis by blast
  next
    case (Inl e)
    with Suc.prems obtain calls' slept' where
      "safe_from operation m d (Suc a) r (Some e) = (Inr v, calls', slept')"
      by (auto simp: sleep_def split: if_splits prod.splits)
    then show ?thesis by (rule Suc.IH)
  qed
qed

lemma good_copy_Updater: "good_copy (Updater_copy env)"
  unfolding good_copy_def
proof (intro allI impI)
  fix D content name dst D'
  assume run: "Updater_copy env D content name dst = Inr D'"
  let ?op = "\<lambda>attempt. case Updater_copy_attempt env D content name dst attempt of
                           Inl e \<Rightarrow> Inl e | Inr D' \<Rightarrow> Inr ()"
  obtain res calls slept where r: "copy_file_with_retry ?op 5 = (res, calls, slept)"
    by (cases "copy_file_with_retry ?op 5")
  with run obtain u where u: "res = Inr u" and last: "Updater_copy_attempt env D content name dst (calls - 1) = Inr D'"
    by (cases res) (auto simp: Updater_copy_def)
  then have "\<exists>D1. makedirs (butlast dst) D = Inr D1 \<and> copy2 D1 content name dst = Inr D'"
    by (auto simp: Updater_copy_attempt_def split: option.splits sum.splits)
  then show "copy2 D content name dst = Inr D' \<or>
        (\<exists>D1. makedirs (butlast dst) D = Inr D1 \<and> copy2 D1 content name dst = Inr D')" by blast
qed

lemma good_copy_UpdateChecker: "good_copy (UpdateChecker_copy env)"
  unfolding good_copy_def
proof (intro allI impI)
  fix D content name dst D'
  assume run: "UpdateChecker_copy env D content name dst = Inr D'"
  let ?op = "\<lambda>attempt. case denied env dst attempt of Some e \<Rightarrow> Inl e | None \<Rightarrow> copy2 D content name dst"
  from run have "fst (safe_file_operation ?op 3 2) = Inr D'"
    by (auto simp: UpdateChecker_copy_def Let_def split: if_splits prod.splits sum.splits)
  then obtain calls slept where "safe_from ?op 3 2 0 (nat 3) None = (Inr D', calls, slept)"
    unfolding safe_file_operation_def by (cases "safe_from ?op 3 2 0 (nat 3) None") auto
  from safe_from_success [OF this] obtain k where "?op k = Inr D'" by blast
  then have "copy2 D content name dst = Inr D'" by (auto split: option.splits)
  then show "copy2 D content name dst = Inr D' \<or>
        (\<exists>D1. makedirs (butlast dst) D = Inr D1 \<and> copy2 D1 content name dst = Inr D')" by blast
qed

text \<open>
  Claim C5, as stated, covers every destination tree. Where the destination has a directory
  at the path of a source file, \<open>shutil.copy2\<close> copies the file into that directory: with
  the source file \<open>a\<close> and the destination directory \<open>dst/a\<close> holding a file \<open>a\<close>, the
  merge completes, \<open>dst/a\<close> is still a directory and not the source file, and the
  pre-existing file \<open>dst/a/a\<close>, whose relative path does not occur in the source, has
  been overwritten.
\<close>

theorem merge_into_directory_clash:
  "lookup src_one_file [''a''] = Some (File ''new'') \<and>
   lookup src_one_file [''a'', ''a''] = None \<and>
   dst_with_dir [''dst'', ''a'', ''a''] = Some (FileE ''old'') \<and>
   entry_after (Updater_merge_directory calm src_one_file [''dst''] dst_with_dir) [''dst'', ''a'']
     = Inr (Some DirE) \<and>
   entry_after (Updater_merge_directory calm src_one_file [''dst''] dst_with_dir) [''dst'', ''a'', ''a'']
     = Inr (Some (FileE ''new''))"
  by code_simp

text \<open>
  Claim C5, amended: for all source trees \<open>S\<close> (every directory listing each name once)
  and destinations \<open>D\<close> in which no path of a file of \<open>S\<close> is a directory, after the
  merge of \<open>S\<close> into \<open>dst_dir\<close> has completed (by \<open>Updater._merge_directory\<close> or by the
  merging branch of \<open>copy_item\<close>, whatever the operating system refused on the way), every
  file of \<open>S\<close> lies at its relative path under \<open>dst_dir\<close> with the content it has in
  \<open>S\<close>, and every file of \<open>D\<close> that is not at the path of a file of \<open>S\<close> is unchanged.
\<close>

theorem merge_directory_effect:
  assumes "wf_entries S"
    and "\<forall>p c. lookup S p = Some (File c) \<longrightarrow> \<not> isdir_fs D (dst_dir @ p)"
    and "Updater_merge_directory env S dst_dir D = Inr D' \<or>
         UpdateChecker_merge_directory env S dst_dir D = Inr D'"
  shows "(\<forall>p c. lookup S p = Some (File c) \<longrightarrow> D' (dst_dir @ p) = Some (FileE c)) \<and>
         (\<forall>q c. D q = Some (FileE c) \<and> (\<forall>p c'. lookup S p = Some (File c') \<longrightarrow> q \<noteq> dst_dir @ p) \<longrightarrow>
            D' q = Some (FileE c))"
  using assms(3)
proof
  assume "Updater_merge_directory env S dst_dir D = Inr D'"
  then have "merge_walk (Updater_copy env) dst_dir S D = Inr D'"
    by (simp add: Updater_merge_directory_def)
  from merge_walk_effect [OF good_copy_Updater assms(1,2) this] show ?thesis .
next
  assume "UpdateChecker_merge_directory env S dst_dir D = Inr D'"
  then have "merge_walk (UpdateChecker_copy env) dst_dir S D = Inr D'"
    by (simp add: UpdateChecker_merge_directory_def)
  from merge_walk_effect [OF good_copy_UpdateChecker assms(1,2) this] show ?thesis .
qed

lemma src_one_file_files: "lookup src_one_file p = Some (File c) \<Longrightarrow> p = [''a'']"
  by (cases p) (auto simp: src_one_file_def split: if_splits)

lemma merge_one_file_completes:
  "entry_after (Updater_merge_directory calm src_one_file [''dst''] dst_with_files) [''dst'']
     = Inr (Some DirE)"
  by code_simp

theorem merge_directory_effect_witness:
  "entry_after (Updater_merge_directory calm src_one_file [''dst''] dst_with_files) [''dst'', ''a'']
     = Inr (Some (FileE ''new'')) \<and>
   entry_after (Updater_merge_directory calm src_one_file [''dst''] dst_with_files) [''dst'', ''b'']
     = Inr (Some (FileE ''kept''))"
proof -
  have wf: "wf_entries src_one_file" by (simp add: wf_entries.simps src_one_file_def)
  have nc: "\<forall>p c. lookup src_one_file p = Some (File c) \<longrightarrow> \<not> isdir_fs dst_with_files ([''dst''] @ p)"
    using src_one_file_files by (auto simp: isdir_fs_def dst_with_files_def)
  from merge_one_file_completes obtain D' where
    run: "Updater_merge_directory calm src_one_file [''dst''] dst_with_files = Inr D'"
    by (cases "Updater_merge_directory calm src_one_file [''dst''] dst_with_files")
       (simp_all add: entry_after_def)
  note eff = merge_directory_effect [OF wf nc disjI1 [OF run]]
  have f: "lookup src_one_file [''a''] = Some (File ''new'')" by (simp add: src_one_file_def)
  have k: "dst_with_files [''dst'', ''b''] = Some (FileE ''kept'')" by (simp add: dst_with_files_def)
  have o: "\<forall>p c'. lookup src_one_file p = Some (File c') \<longrightarrow> [''dst'', ''b''] \<noteq> [''dst''] @ p"
    using src_one_file_files by auto
  from eff f have "D' ([''dst''] @ [''a'']) = Some (FileE ''new'')" by blast
  moreover from eff k o have "D' [''dst'', ''b''] = Some (FileE ''kept'')" by blast
  ultimately show ?thesis using run by (simp add: entry_after_def)
qed

end
